theory Spec2Isabelle
  imports Main
begin

section \<open>Strings and the JavaScript string primitives the plugin relies on\<close>

text \<open>
  Strings are modelled as ASCII byte strings (\<open>string = char list\<close>).  The character
  classes below are the ASCII parts of the JavaScript regular-expression classes
  \<open>\d\<close> and \<open>\s\<close> and of the classes spelled out in the regular expressions of the
  \<open>semver\<close> package.
\<close>

definition is_digit :: "char \<Rightarrow> bool" where
  "is_digit c = (c \<in> set ''0123456789'')"

definition is_letter :: "char \<Rightarrow> bool" where
  "is_letter c =
     (c \<in> set ''abcdefghijklmnopqrstuvwxyzABCDEFGHIJKLMNOPQRSTUVWXYZ'')"

definition is_space :: "char \<Rightarrow> bool" where
  \<comment> \<open>\<open>\s\<close>: space, tab, line feed, vertical tab, form feed, carriage return\<close>
  "is_space c = (c \<in> set [CHR '' '', CHR 0x09, CHR 0x0A, CHR 0x0B, CHR 0x0C, CHR 0x0D])"

definition is_letterdashnumber :: "char \<Rightarrow> bool" where
  \<comment> \<open>\<open>[a-zA-Z0-9-]\<close>\<close>
  "is_letterdashnumber c = (is_letter c \<or> is_digit c \<or> c = CHR ''-'')"

definition js_trim :: "string \<Rightarrow> string" where
  \<comment> \<open>\<open>String.prototype.trim\<close>\<close>
  "js_trim s = rev (dropWhile is_space (rev (dropWhile is_space s)))"

fun split_on :: "char \<Rightarrow> string \<Rightarrow> string list" where
  \<comment> \<open>\<open>s.split(c)\<close> for a one-character separator: never the empty list\<close>
  "split_on sep [] = [[]]"
| "split_on sep (c # cs) =
     (if c = sep then [] # split_on sep cs
      else (case split_on sep cs of
              [] \<Rightarrow> [[c]]
            | p # ps \<Rightarrow> (c # p) # ps))"

fun join_with :: "string \<Rightarrow> string list \<Rightarrow> string" where
  \<comment> \<open>\<open>xs.join(sep)\<close>\<close>
  "join_with sep [] = []"
| "join_with sep [x] = x"
| "join_with sep (x # y # ys) = x @ sep @ join_with sep (y # ys)"

fun is_prefix :: "string \<Rightarrow> string \<Rightarrow> bool" where
  "is_prefix [] s = True"
| "is_prefix (p # ps) [] = False"
| "is_prefix (p # ps) (c # cs) = (p = c \<and> is_prefix ps cs)"

fun contains :: "string \<Rightarrow> string \<Rightarrow> bool" where
  \<comment> \<open>\<open>contains pat s\<close>: the literal \<open>pat\<close> occurs in \<open>s\<close>, as \<open>/pat/.test(s)\<close> for a
      pattern without metacharacters\<close>
  "contains pat [] = (pat = [])"
| "contains pat (c # cs) = (is_prefix pat (c # cs) \<or> contains pat cs)"

fun find_first :: "string \<Rightarrow> string \<Rightarrow> (string \<times> string) option" where
  \<comment> \<open>the text before and after the first occurrence of \<open>pat\<close> in \<open>s\<close>\<close>
  "find_first pat [] = (if pat = [] then Some ([], []) else None)"
| "find_first pat (c # cs) =
     (if is_prefix pat (c # cs) then Some ([], drop (length pat) (c # cs))
      else (case find_first pat cs of
              None \<Rightarrow> None
            | Some (front, back) \<Rightarrow> Some (c # front, back)))"

fun get_substitution :: "string \<Rightarrow> string \<Rightarrow> string \<Rightarrow> string \<Rightarrow> string" where
  \<comment> \<open>ECMAScript \<open>GetSubstitution\<close> when the pattern is a string (no capture groups):
      \<open>$$\<close>, \<open>$&\<close>, \<open>$`\<close> and \<open>$'\<close> are expanded, any other \<open>$\<close> is literal\<close>
  "get_substitution matched front back [] = []"
| "get_substitution matched front back [c] = [c]"
| "get_substitution matched front back (c # d # cs) =
     (if c = CHR ''$'' then
        (if d = CHR ''$'' then CHR ''$'' # get_substitution matched front back cs
         else if d = CHR ''&'' then matched @ get_substitution matched front back cs
         else if d = CHR 0x60 then front @ get_substitution matched front back cs
         else if d = CHR 0x27 then back @ get_substitution matched front back cs
         else c # get_substitution matched front back (d # cs))
      else c # get_substitution matched front back (d # cs))"

definition js_replace :: "string \<Rightarrow> string \<Rightarrow> string \<Rightarrow> string" where
  \<comment> \<open>\<open>s.replace(pat, repl)\<close> for a string pattern: the first occurrence only\<close>
  "js_replace s pat repl =
     (case find_first pat s of
        None \<Rightarrow> s
      | Some (front, back) \<Rightarrow> front @ get_substitution pat front back repl @ back)"

fun nat_of_digits_acc :: "nat \<Rightarrow> string \<Rightarrow> nat" where
  "nat_of_digits_acc acc [] = acc"
| "nat_of_digits_acc acc (c # cs) = nat_of_digits_acc (10 * acc + (of_char c - 48)) cs"

definition nat_of_digits :: "string \<Rightarrow> nat" where
  \<comment> \<open>the value of a string of decimal digits (\<open>+s\<close>)\<close>
  "nat_of_digits s = nat_of_digits_acc 0 s"

fun show_nat :: "nat \<Rightarrow> string" where
  \<comment> \<open>the decimal rendering of a number (\<open>String(n)\<close> for a safe integer)\<close>
  "show_nat n =
     (if n < 10 then [''0123456789'' ! n]
      else show_nat (n div 10) @ [''0123456789'' ! (n mod 10)])"

declare show_nat.simps [simp del]


section \<open>The \<open>semver\<close> package: \<open>parse\<close>, \<open>valid\<close> and \<open>coerce\<close>\<close>

text \<open>
  The plugin calls \<open>semver.parse\<close>, \<open>semver.valid\<close> and \<open>semver.coerce\<close> with no
  options, so the strict grammar applies.  The definitions below follow the package's
  regular expressions \<open>FULL\<close> and \<open>COERCE\<close> and the constructor of its \<open>SemVer\<close>
  class (semver 7): the input is trimmed, an optional \<open>v\<close> is skipped, the three numeric
  identifiers must not have leading zeros and must not exceed \<open>MAX_SAFE_INTEGER\<close>, and
  numeric pre-release identifiers below \<open>MAX_SAFE_INTEGER\<close> become numbers.
\<close>

definition MAX_LENGTH :: nat where
  "MAX_LENGTH = 256"

definition MAX_SAFE_INTEGER :: nat where
  "MAX_SAFE_INTEGER = 9007199254740991"

definition MAX_SAFE_COMPONENT_LENGTH :: nat where
  "MAX_SAFE_COMPONENT_LENGTH = 16"

datatype prerelease_id = PNum nat | PStr string

record semver =
  major :: nat
  minor :: nat
  patch :: nat
  prerelease :: "prerelease_id list"
  build :: "string list"

definition numeric_identifier :: "string \<Rightarrow> bool" where
  \<comment> \<open>\<open>0|[1-9]\d*\<close>\<close>
  "numeric_identifier s =
     (s \<noteq> [] \<and> list_all is_digit s \<and> (if hd s = CHR ''0'' then length s = 1 else True))"

definition prerelease_identifier :: "string \<Rightarrow> bool" where
  \<comment> \<open>\<open>\d*[a-zA-Z-][a-zA-Z0-9-]*|0|[1-9]\d*\<close>\<close>
  "prerelease_identifier s =
     (s \<noteq> [] \<and> list_all is_letterdashnumber s \<and>
      (if list_all is_digit s then numeric_identifier s else True))"

definition build_identifier :: "string \<Rightarrow> bool" where
  \<comment> \<open>\<open>[a-zA-Z0-9-]+\<close>\<close>
  "build_identifier s = (s \<noteq> [] \<and> list_all is_letterdashnumber s)"

definition numberify :: "string \<Rightarrow> prerelease_id" where
  \<comment> \<open>the constructor's map over the pre-release identifiers\<close>
  "numberify ident =
     (if list_all is_digit ident \<and> ident \<noteq> [] \<and> nat_of_digits ident < MAX_SAFE_INTEGER
      then PNum (nat_of_digits ident) else PStr ident)"

definition match_numeric :: "string \<Rightarrow> (string \<times> string) option" where
  \<comment> \<open>a numeric identifier at the head of the input, and the input after it\<close>
  "match_numeric s =
     (let ds = takeWhile is_digit s
      in if numeric_identifier ds then Some (ds, dropWhile is_digit s) else None)"

definition match_tail :: "string \<Rightarrow> (string list \<times> string list) option" where
  \<comment> \<open>what follows the patch number: \<open>(-pre(.pre)*)?(+build(.build)*)?$\<close>; the result is
      the lists of pre-release and build identifiers\<close>
  "match_tail s =
     (let match_build = (\<lambda>b.
            (case b of
               [] \<Rightarrow> Some []
             | c # bs \<Rightarrow>
                 if c = CHR ''+'' \<and> list_all build_identifier (split_on CHR ''.'' bs)
                 then Some (split_on CHR ''.'' bs) else None))
      in case s of
           [] \<Rightarrow> Some ([], [])
         | c # cs \<Rightarrow>
             if c = CHR ''-'' then
               (let pre = takeWhile (\<lambda>x. x \<noteq> CHR ''+'') cs;
                    rest = dropWhile (\<lambda>x. x \<noteq> CHR ''+'') cs
                in if list_all prerelease_identifier (split_on CHR ''.'' pre)
                   then (case match_build rest of
                           None \<Rightarrow> None
                         | Some bs \<Rightarrow> Some (split_on CHR ''.'' pre, bs))
                   else None)
             else (case match_build (c # cs) of
                     None \<Rightarrow> None
                   | Some bs \<Rightarrow> Some ([], bs)))"

definition match_full :: "string \<Rightarrow> (string \<times> string \<times> string \<times> string list \<times> string list) option" where
  \<comment> \<open>the regular expression \<open>FULL\<close>\<close>
  "match_full s =
     (let s1 = (case s of [] \<Rightarrow> [] | c # cs \<Rightarrow> if c = CHR ''v'' then cs else c # cs)
      in case match_numeric s1 of
           None \<Rightarrow> None
         | Some (ma, r1) \<Rightarrow>
             (case r1 of
                [] \<Rightarrow> None
              | d1 # r1' \<Rightarrow>
                  if d1 \<noteq> CHR ''.'' then None
                  else (case match_numeric r1' of
                          None \<Rightarrow> None
                        | Some (mi, r2) \<Rightarrow>
                            (case r2 of
                               [] \<Rightarrow> None
                             | d2 # r2' \<Rightarrow>
                                 if d2 \<noteq> CHR ''.'' then None
                                 else (case match_numeric r2' of
                                         None \<Rightarrow> None
                                       | Some (pa, r3) \<Rightarrow>
                                           (case match_tail r3 of
                                              None \<Rightarrow> None
                                            | Some (pre, bld) \<Rightarrow> Some (ma, mi, pa, pre, bld)))))))"

definition semver_parse :: "string \<Rightarrow> semver option" where
  \<comment> \<open>\<open>semver.parse(version)\<close> for a string: \<open>None\<close> is \<open>null\<close>\<close>
  "semver_parse version =
     (if length version > MAX_LENGTH then None
      else (case match_full (js_trim version) of
              None \<Rightarrow> None
            | Some (ma, mi, pa, pre, bld) \<Rightarrow>
                if nat_of_digits ma > MAX_SAFE_INTEGER \<or> nat_of_digits mi > MAX_SAFE_INTEGER
                   \<or> nat_of_digits pa > MAX_SAFE_INTEGER
                then None
                else Some \<lparr> major = nat_of_digits ma, minor = nat_of_digits mi,
                            patch = nat_of_digits pa, prerelease = map numberify pre,
                            build = bld \<rparr>))"

definition show_prerelease_id :: "prerelease_id \<Rightarrow> string" where
  "show_prerelease_id p = (case p of PNum n \<Rightarrow> show_nat n | PStr s \<Rightarrow> s)"

definition semver_toString :: "semver \<Rightarrow> string" where
  \<comment> \<open>\<open>SemVer.format\<close>, which \<open>toString\<close> and the \<open>version\<close> field return\<close>
  "semver_toString v =
     show_nat (major v) @ ''.'' @ show_nat (minor v) @ ''.'' @ show_nat (patch v) @
     (if prerelease v = [] then []
      else ''-'' @ join_with ''.'' (map show_prerelease_id (prerelease v)))"

definition semver_valid :: "string \<Rightarrow> string option" where
  \<comment> \<open>\<open>semver.valid(version)\<close>\<close>
  "semver_valid version = map_option semver_toString (semver_parse version)"

fun coerce_scan :: "bool \<Rightarrow> string \<Rightarrow> (string \<times> string) option" where
  \<comment> \<open>the first group of at most 16 digits that is not adjacent to another digit, and
      the input after it; the flag says that the previous character is a digit\<close>
  "coerce_scan prev [] = None"
| "coerce_scan prev (c # cs) =
     (if is_digit c \<and> \<not> prev then
        (let run = takeWhile is_digit (c # cs)
         in if length run \<le> MAX_SAFE_COMPONENT_LENGTH
            then Some (run, dropWhile is_digit (c # cs))
            else coerce_scan True cs)
      else coerce_scan (is_digit c) cs)"

definition coerce_component :: "string \<Rightarrow> (string \<times> string) option" where
  \<comment> \<open>\<open>(?:\.(\d{1,16}))?\<close> followed by a non-digit or the end of the input\<close>
  "coerce_component s =
     (case s of
        [] \<Rightarrow> None
      | c # cs \<Rightarrow>
          (let run = takeWhile is_digit cs
           in if c = CHR ''.'' \<and> run \<noteq> [] \<and> length run \<le> MAX_SAFE_COMPONENT_LENGTH
              then Some (run, dropWhile is_digit cs) else None))"

definition coerce_match :: "string \<Rightarrow> (string \<times> string \<times> string) option" where
  \<comment> \<open>the groups 2, 3 and 4 of the regular expression \<open>COERCE\<close>, a missing group
      replaced by \<open>0\<close>\<close>
  "coerce_match s =
     (case coerce_scan False s of
        None \<Rightarrow> None
      | Some (ma, r1) \<Rightarrow>
          (case coerce_component r1 of
             None \<Rightarrow> Some (ma, ''0'', ''0'')
           | Some (mi, r2) \<Rightarrow>
               (case coerce_component r2 of
                  None \<Rightarrow> Some (ma, mi, ''0'')
                | Some (pa, r3) \<Rightarrow> Some (ma, mi, pa))))"

definition semver_coerce :: "string \<Rightarrow> semver option" where
  \<comment> \<open>\<open>semver.coerce(version)\<close> for a string\<close>
  "semver_coerce version =
     (case coerce_match version of
        None \<Rightarrow> None
      | Some (ma, mi, pa) \<Rightarrow> semver_parse (ma @ ''.'' @ mi @ ''.'' @ pa))"


section \<open>JavaScript values and errors\<close>

text \<open>
  A parsed manifest is a JSON value.  Numbers are the integers (a manifest holds names,
  version strings, flags and nested tables; a number with a fraction or an exponent is
  outside the model).  An object is the list of its properties in enumeration order.
  \<open>undefined\<close> is \<open>None\<close> of type \<open>json option\<close>.  A thrown exception is a value of
  type \<open>error\<close>; a function that can throw returns \<open>error + 'a\<close>.  \<open>Unmodelled\<close> is not
  an exception: it is the answer for an input that the model does not cover (a text
  that the model of \<open>JSON.parse\<close> does not read, a number beyond the safe integers),
  about which the theorems say nothing.
\<close>

datatype json =
    JNull
  | JBool bool
  | JNum int
  | JString string
  | JArray "json list"
  | JObject "(string \<times> json) list"

datatype error =
    TypeError string
  | Error string
  | SyntaxError string
  | Unmodelled string

fun in_model :: "json \<Rightarrow> bool"
  and in_model_elements :: "json list \<Rightarrow> bool"
  and in_model_members :: "(string \<times> json) list \<Rightarrow> bool" where
  \<comment> \<open>the values that stand for a value of the program, which are the values that the
      model of \<open>JSON.parse\<close> yields: the numbers are safe integers, the characters are
      ASCII, and the keys of an object are distinct and no array indices (JavaScript
      enumerates those first)\<close>
  "in_model JNull = True"
| "in_model (JBool b) = True"
| "in_model (JNum n) = (\<bar>n\<bar> \<le> int MAX_SAFE_INTEGER)"
| "in_model (JString s) = list_all (\<lambda>c. (of_char c :: nat) < 128) s"
| "in_model (JArray xs) = in_model_elements xs"
| "in_model (JObject props) = (distinct (map fst props) \<and> in_model_members props)"
| "in_model_elements [] = True"
| "in_model_elements (x # xs) = (in_model x \<and> in_model_elements xs)"
| "in_model_members [] = True"
| "in_model_members ((k, x) # props) =
     (list_all (\<lambda>c. (of_char c :: nat) < 128) k \<and>
      \<not> (numeric_identifier k \<and> nat_of_digits k < 4294967295) \<and>
      in_model x \<and> in_model_members props)"

definition error_text :: "error \<Rightarrow> string" where
  \<comment> \<open>\<open>String(err)\<close>, which \<open>RegExp.prototype.test\<close> applies to its argument\<close>
  "error_text e =
     (case e of
        TypeError m \<Rightarrow> ''TypeError: '' @ m
      | Error m \<Rightarrow> ''Error: '' @ m
      | SyntaxError m \<Rightarrow> ''SyntaxError: '' @ m
      | Unmodelled m \<Rightarrow> m)"

definition get_prop :: "json \<Rightarrow> string \<Rightarrow> json option" where
  \<comment> \<open>\<open>value[key]\<close> for a key that no prototype defines; reading a property of \<open>null\<close>
      throws and is handled where it can happen\<close>
  "get_prop v key = (case v of JObject props \<Rightarrow> map_of props key | _ \<Rightarrow> None)"

fun set_field :: "string \<Rightarrow> json \<Rightarrow> (string \<times> json) list \<Rightarrow> (string \<times> json) list" where
  \<comment> \<open>\<open>obj[key] = value\<close> for a key that is not an array index: an existing property
      keeps its place, a new one goes last\<close>
  "set_field key val [] = [(key, val)]"
| "set_field key val ((k, v) # props) =
     (if k = key then (k, val) # props else (k, v) # set_field key val props)"

definition truthy :: "json option \<Rightarrow> bool" where
  "truthy v =
     (case v of
        None \<Rightarrow> False
      | Some JNull \<Rightarrow> False
      | Some (JBool b) \<Rightarrow> b
      | Some (JNum n) \<Rightarrow> n \<noteq> 0
      | Some (JString s) \<Rightarrow> s \<noteq> []
      | Some (JArray xs) \<Rightarrow> True
      | Some (JObject props) \<Rightarrow> True)"

definition truthy_string :: "string option \<Rightarrow> bool" where
  "truthy_string v = (case v of None \<Rightarrow> False | Some s \<Rightarrow> s \<noteq> [])"

definition exponent_part :: "string \<Rightarrow> bool" where
  \<comment> \<open>\<open>[eE][+-]?[0-9]+\<close> up to the end of the input\<close>
  "exponent_part s =
     (case s of
        [] \<Rightarrow> False
      | c # cs \<Rightarrow>
          (c = CHR ''e'' \<or> c = CHR ''E'') \<and>
          (let ds = (case cs of
                       [] \<Rightarrow> []
                     | d # ds' \<Rightarrow> if d = CHR ''+'' \<or> d = CHR ''-'' then ds' else cs)
           in ds \<noteq> [] \<and> list_all is_digit ds))"

definition unsigned_decimal_literal :: "string \<Rightarrow> bool" where
  \<comment> \<open>\<open>StrUnsignedDecimalLiteral\<close> of the ECMAScript string-to-number grammar\<close>
  "unsigned_decimal_literal s =
     (s = ''Infinity'' \<or>
      (let d1 = takeWhile is_digit s; r1 = dropWhile is_digit s
       in case r1 of
            [] \<Rightarrow> d1 \<noteq> []
          | c # cs \<Rightarrow>
              if c = CHR ''.'' then
                (let d2 = takeWhile is_digit cs; r2 = dropWhile is_digit cs
                 in (d1 \<noteq> [] \<or> d2 \<noteq> []) \<and> (r2 = [] \<or> exponent_part r2))
              else d1 \<noteq> [] \<and> exponent_part r1))"

definition non_decimal_literal :: "string \<Rightarrow> bool" where
  \<comment> \<open>\<open>0x\<close>, \<open>0o\<close> and \<open>0b\<close> integer literals\<close>
  "non_decimal_literal s =
     (case s of
        c # d # ds \<Rightarrow>
          c = CHR ''0'' \<and> ds \<noteq> [] \<and>
          ((d \<in> set ''xX'' \<and> list_all (\<lambda>x. x \<in> set ''0123456789abcdefABCDEF'') ds) \<or>
           (d \<in> set ''oO'' \<and> list_all (\<lambda>x. x \<in> set ''01234567'') ds) \<or>
           (d \<in> set ''bB'' \<and> list_all (\<lambda>x. x \<in> set ''01'') ds))
      | _ \<Rightarrow> False)"

definition js_isNaN_string :: "string \<Rightarrow> bool" where
  \<comment> \<open>\<open>isNaN(s)\<close> for a string: \<open>Number(s)\<close> is \<open>NaN\<close> unless the trimmed string is
      empty or a numeric literal\<close>
  "js_isNaN_string s =
     (let t = js_trim s;
          u = (case t of [] \<Rightarrow> [] | c # cs \<Rightarrow> if c = CHR ''+'' \<or> c = CHR ''-'' then cs else t)
      in \<not> (t = [] \<or> non_decimal_literal t \<or> unsigned_decimal_literal u))"

section \<open>The plugin's helper functions\<close>

definition DEFAULT_TAG :: string where
  "DEFAULT_TAG = ''latest''"

definition workspaces_error :: error where
  "workspaces_error =
     Error (''This package doesn'' @ [CHR 0x27] @
            ''t use yarn workspaces. (package.json doesn'' @ [CHR 0x27] @
            ''t contain a `workspaces` property)'')"

definition resolveWorkspaces :: "json option \<Rightarrow> error + json option" where
  \<comment> \<open>the argument is the \<open>workspaces\<close> property of the root manifest\<close>
  "resolveWorkspaces workspaces =
     (case workspaces of
        Some (JArray xs) \<Rightarrow> Inr (Some (JArray xs))
      | Some (JObject props) \<Rightarrow> Inr (get_prop (JObject props) ''packages'')
      | _ \<Rightarrow> Inl workspaces_error)"

datatype version_field = VString string | VSemVer semver

record parsed_version =
  version :: "version_field option"
  isPreRelease :: bool
  preReleaseId :: "string option"

definition parseVersion :: "string option \<Rightarrow> error + parsed_version" where
  \<comment> \<open>\<open>None\<close> is an absent argument.  When neither \<open>valid\<close> nor \<open>coerce\<close> accepts the
      input, \<open>semver.parse\<close> returns \<open>null\<close> and reading \<open>parsed.prerelease\<close> throws.\<close>
  "parseVersion raw =
     (if \<not> truthy_string raw
      then Inr \<lparr> version = None, isPreRelease = False, preReleaseId = None \<rparr>
      else
        (let ver = (if semver_valid (the raw) \<noteq> None then Some (VString (the raw))
                    else map_option VSemVer (semver_coerce (the raw)));
             parsed = (case ver of
                         None \<Rightarrow> None
                       | Some (VString s) \<Rightarrow> semver_parse s
                       | Some (VSemVer v) \<Rightarrow> Some v)
         in case parsed of
              None \<Rightarrow> Inl (TypeError ''Cannot read properties of null (reading prerelease)'')
            | Some p \<Rightarrow>
                Inr \<lparr> version = ver,
                      isPreRelease = (length (prerelease p) > 0),
                      preReleaseId =
                        (case prerelease p of
                           [] \<Rightarrow> None
                         | PNum n # ids \<Rightarrow> None
                         | PStr ident # ids \<Rightarrow>
                             if js_isNaN_string ident then Some ident else None) \<rparr>))"

definition buildReplacementDepencencyVersion :: "string \<Rightarrow> string \<Rightarrow> string" where
  "buildReplacementDepencencyVersion existingVersion newVersion =
     (if semver_parse existingVersion \<noteq> None then newVersion
      else (case semver_coerce existingVersion of
              Some existingVersionCoerced \<Rightarrow>
                js_replace existingVersion (semver_toString existingVersionCoerced) newVersion
            | None \<Rightarrow> newVersion))"

definition bump_distTag :: "string option \<Rightarrow> string \<Rightarrow> error + string option" where
  \<comment> \<open>the first statements of \<open>bump\<close>: the tag stored in the context.  The first
      argument is \<open>options.distTag\<close>; the result \<open>None\<close> is the value \<open>null\<close>.  Inside the
      \<open>if\<close> the option is falsy, so the condition of the conditional expression,
      \<open>(options.distTag || isPreRelease)\<close>, is \<open>isPreRelease\<close>.\<close>
  "bump_distTag distTag newVersion =
     (if \<not> truthy_string distTag then
        (case parseVersion (Some newVersion) of
           Inl e \<Rightarrow> Inl e
         | Inr p \<Rightarrow>
             Inr (if truthy_string distTag \<or> isPreRelease p then preReleaseId p
                  else Some DEFAULT_TAG))
      else Inr distTag)"

section \<open>The process, the host and the registry\<close>

text \<open>
  What the plugin does to the outside is explicit state: the working directory of the
  process, the messages given to the host's logger, the commands run, the one-time
  password shared by the publish attempts of one release, and the files written.  What
  the outside does to the plugin is an environment: which directories exist, how each
  command ends, what the user answers to each prompt, and whether the run is a dry run.
  Commands and prompts are numbered in the order in which they happen.
\<close>

datatype log_entry = Warn string | Log string | Exec string | Debug string

record world =
  cwd :: string
  log :: "log_entry list"
  executed :: "(string \<times> string) list"
  prompts :: nat
  otp :: "string option"
  files :: "string \<Rightarrow> string option"

record env =
  directory_exists :: "string \<Rightarrow> bool"
  npm :: "nat \<Rightarrow> string \<Rightarrow> string \<Rightarrow> error option"
  otp_answer :: "nat \<Rightarrow> string option"
  public_answer :: "nat \<Rightarrow> bool"
  isDryRun :: bool

definition chdir :: "env \<Rightarrow> string \<Rightarrow> world \<Rightarrow> error + world" where
  \<comment> \<open>\<open>process.chdir(directory)\<close>, which throws when the directory cannot be entered\<close>
  "chdir e directory w =
     (if directory_exists e directory then Inr (w\<lparr> cwd := directory \<rparr>)
      else Inl (Error (''ENOENT: no such file or directory, chdir '' @ directory)))"

definition log_warn :: "string \<Rightarrow> world \<Rightarrow> world" where
  "log_warn msg w = w\<lparr> log := log w @ [Warn msg] \<rparr>"

definition debug :: "string \<Rightarrow> world \<Rightarrow> world" where
  "debug msg w = w\<lparr> log := log w @ [Debug msg] \<rparr>"

definition exec :: "env \<Rightarrow> string \<Rightarrow> world \<Rightarrow> error option \<times> world" where
  \<comment> \<open>\<open>this.exec(command, { options })\<close> with \<open>write: false\<close>: the command runs in a dry
      run too; \<open>Some err\<close> is the rejection of the promise\<close>
  "exec e command w =
     (npm e (length (executed w)) (cwd w) command,
      w\<lparr> executed := executed w @ [(cwd w, command)] \<rparr>)"

section \<open>Manifest files and workspaces\<close>

record JSONFile =
  filename :: string
  pkg :: json
  lineEndings :: "string option"
  indent :: nat
  trailingWhitespace :: string

record workspaceInfo =
  root :: string
  relativeRoot :: string
  name :: "json option"
  isPrivate :: bool
  isReleased :: bool
  pkgInfo :: JSONFile

section \<open>Publishing\<close>

definition show_option :: "string option \<Rightarrow> string" where
  \<comment> \<open>a value in a template literal; \<open>None\<close> is \<open>null\<close>\<close>
  "show_option v = (case v of None \<Rightarrow> ''null'' | Some s \<Rightarrow> s)"

definition publish_command :: "env \<Rightarrow> string option \<Rightarrow> string option \<Rightarrow> world \<Rightarrow> string" where
  \<comment> \<open>the command line of one attempt: tag, access, shared password, dry run\<close>
  "publish_command e tg access w =
     (let otpArg = (if truthy_string (otp w) then '' --otp '' @ the (otp w) else []);
          accessArg = (if truthy_string access then '' --access '' @ the access else []);
          dryRunArg = (if isDryRun e then '' --dry-run'' else [])
      in ''npm publish . --tag '' @ show_option tg @ accessArg @ otpArg @ dryRunArg)"

text \<open>
  \<open>publish\<close> calls itself after a prompt, with no bound on the number of attempts, so it
  is a partial function: \<open>None\<close> is a run that never returns.  A result
  \<open>Some (Inl err, _, _)\<close> is a rejected promise (the exception \<open>err\<close> propagates to the
  caller), \<open>Some (Inr (), _, _)\<close> a fulfilled one.  The workspace is passed and returned,
  since \<open>publish\<close> sets its \<open>isReleased\<close> field.
\<close>

partial_function (option) publish ::
  "env \<Rightarrow> string option \<Rightarrow> string option \<Rightarrow> workspaceInfo \<Rightarrow> world
     \<Rightarrow> ((error + unit) \<times> workspaceInfo \<times> world) option" where
  "publish e tg access workspace w =
     (case name workspace of
        Some (JString nm) \<Rightarrow>
          (let isScoped = is_prefix ''@'' nm
           in if isPrivate workspace
              then Some (Inr (), workspace,
                         log_warn (nm @ '': Skip publish (package is private)'') w)
              else
                (case exec e (publish_command e tg access w) w of
                   (None, w1) \<Rightarrow> Some (Inr (), workspace\<lparr> isReleased := True \<rparr>, w1)
                 | (Some err, w1) \<Rightarrow>
                     (let w2 = debug (error_text err) w1
                      in if contains ''one-time pass'' (error_text err) then
                           (let w3 = (if otp w2 \<noteq> None
                                      then log_warn
                                             ''The provided OTP is incorrect or has expired.'' w2
                                      else w2);
                                w4 = w3\<lparr> otp := otp_answer e (prompts w3),
                                         prompts := Suc (prompts w3) \<rparr>
                            in publish e tg access workspace w4)
                         else if isScoped \<and> contains ''private packages'' (error_text err) then
                           (let publishAsPublic = public_answer e (prompts w2);
                                w3 = w2\<lparr> prompts := Suc (prompts w2) \<rparr>
                            in if publishAsPublic
                               then publish e tg (Some ''public'') workspace w3
                               else Some (Inl err, workspace,
                                          log_warn (nm @ '' was not published.'') w3))
                         else Some (Inl err, workspace, w2))))
      | _ \<Rightarrow>
          Some (Inl (TypeError ''workspaceInfo.name.startsWith is not a function''),
                workspace, w))"

fun eachWorkspace ::
  "env \<Rightarrow> string
     \<Rightarrow> (workspaceInfo \<Rightarrow> world \<Rightarrow> ((error + unit) \<times> workspaceInfo \<times> world) option)
     \<Rightarrow> workspaceInfo list \<Rightarrow> world
     \<Rightarrow> ((error + unit) \<times> workspaceInfo list \<times> world) option" where
  \<comment> \<open>the second argument is the \<open>root\<close> of the context, the fourth the cached list
      that \<open>getWorkspaces\<close> returns.  \<open>try\<close>/\<open>finally\<close>: the second \<open>chdir\<close> runs whatever
      the first \<open>chdir\<close> and the action did, and an exception of its own replaces
      theirs.\<close>
  "eachWorkspace e context_root action [] w = Some (Inr (), [], w)"
| "eachWorkspace e context_root action (workspace # rest) w =
     (case chdir e (root workspace) w of
        Inl err1 \<Rightarrow>
          (case chdir e context_root w of
             Inl err2 \<Rightarrow> Some (Inl err2, workspace # rest, w)
           | Inr w' \<Rightarrow> Some (Inl err1, workspace # rest, w'))
      | Inr w1 \<Rightarrow>
          (case action workspace w1 of
             None \<Rightarrow> None
           | Some (result, workspace', w2) \<Rightarrow>
               (case chdir e context_root w2 of
                  Inl err2 \<Rightarrow> Some (Inl err2, workspace' # rest, w2)
                | Inr w3 \<Rightarrow>
                    (case result of
                       Inl err \<Rightarrow> Some (Inl err, workspace' # rest, w3)
                     | Inr u \<Rightarrow>
                         (case eachWorkspace e context_root action rest w3 of
                            None \<Rightarrow> None
                          | Some (result', rest', w4) \<Rightarrow>
                              Some (result', workspace' # rest', w4))))))"

section \<open>\<open>JSON.stringify\<close> and writing a manifest\<close>

abbreviation DQ :: char where "DQ \<equiv> CHR 0x22"
abbreviation BSL :: char where "BSL \<equiv> CHR 0x5C"
abbreviation LF :: char where "LF \<equiv> CHR 0x0A"
abbreviation CR :: char where "CR \<equiv> CHR 0x0D"
abbreviation TAB :: char where "TAB \<equiv> CHR 0x09"

definition show_int :: "int \<Rightarrow> string" where
  "show_int i = (if i < 0 then CHR ''-'' # show_nat (nat (- i)) else show_nat (nat i))"

definition quote_char :: "char \<Rightarrow> string" where
  \<comment> \<open>one character of \<open>QuoteJSONString\<close>\<close>
  "quote_char c =
     (if c = CHR 0x08 then [BSL, CHR ''b'']
      else if c = TAB then [BSL, CHR ''t'']
      else if c = LF then [BSL, CHR ''n'']
      else if c = CHR 0x0C then [BSL, CHR ''f'']
      else if c = CR then [BSL, CHR ''r'']
      else if c = DQ then [BSL, DQ]
      else if c = BSL then [BSL, BSL]
      else if (of_char c :: nat) < 32
        then [BSL, CHR ''u'', CHR ''0'', CHR ''0'',
              ''0123456789abcdef'' ! (of_char c div 16), ''0123456789abcdef'' ! (of_char c mod 16)]
      else [c])"

definition json_quote :: "string \<Rightarrow> string" where
  "json_quote s = DQ # concat (map quote_char s) @ [DQ]"

fun serialize :: "string \<Rightarrow> string \<Rightarrow> json \<Rightarrow> string"
  and serialize_elements :: "string \<Rightarrow> string \<Rightarrow> json list \<Rightarrow> string list"
  and serialize_members :: "string \<Rightarrow> string \<Rightarrow> (string \<times> json) list \<Rightarrow> string list" where
  \<comment> \<open>\<open>SerializeJSONProperty\<close>: the first argument is the gap, the second the current
      indentation\<close>
  "serialize gap ind JNull = ''null''"
| "serialize gap ind (JBool b) = (if b then ''true'' else ''false'')"
| "serialize gap ind (JNum n) = show_int n"
| "serialize gap ind (JString s) = json_quote s"
| "serialize gap ind (JArray xs) =
     (if xs = [] then ''[]''
      else if gap = [] then ''['' @ join_with '','' (serialize_elements gap (ind @ gap) xs) @ '']''
      else ''['' @ [LF] @ ind @ gap
           @ join_with ('','' @ [LF] @ ind @ gap) (serialize_elements gap (ind @ gap) xs)
           @ [LF] @ ind @ '']'')"
| "serialize gap ind (JObject props) =
     (if props = [] then ''{}''
      else if gap = [] then ''{'' @ join_with '','' (serialize_members gap (ind @ gap) props) @ ''}''
      else ''{'' @ [LF] @ ind @ gap
           @ join_with ('','' @ [LF] @ ind @ gap) (serialize_members gap (ind @ gap) props)
           @ [LF] @ ind @ ''}'')"
| "serialize_elements gap ind [] = []"
| "serialize_elements gap ind (x # xs) = serialize gap ind x # serialize_elements gap ind xs"
| "serialize_members gap ind [] = []"
| "serialize_members gap ind ((k, v) # props) =
     (json_quote k @ '':'' @ (if gap = [] then [] else '' '') @ serialize gap ind v)
     # serialize_members gap ind props"

definition JSON_stringify :: "json \<Rightarrow> nat \<Rightarrow> string" where
  \<comment> \<open>\<open>JSON.stringify(value, null, space)\<close> for a number \<open>space\<close>: at most ten spaces\<close>
  "JSON_stringify v space = serialize (replicate (min space 10) CHR '' '') [] v"

definition replace_newlines :: "string option \<Rightarrow> string \<Rightarrow> string" where
  \<comment> \<open>\<open>s.replace(/\n/g, lineEndings)\<close>; \<open>undefined\<close> is inserted as the text \<open>undefined\<close>\<close>
  "replace_newlines le s =
     concat (map (\<lambda>c. if c = LF then (case le of None \<Rightarrow> ''undefined'' | Some l \<Rightarrow> l) else [c]) s)"

definition write_contents :: "JSONFile \<Rightarrow> string" where
  \<comment> \<open>what \<open>write\<close> passes to \<open>fs.writeFileSync\<close>\<close>
  "write_contents f =
     replace_newlines (lineEndings f) (JSON_stringify (pkg f) (indent f)) @ trailingWhitespace f"

definition JSONFile_write :: "JSONFile \<Rightarrow> world \<Rightarrow> world" where
  \<comment> \<open>the method \<open>write\<close> of the class \<open>JSONFile\<close>\<close>
  "JSONFile_write f w = w\<lparr> files := (files w)(filename f \<mapsto> write_contents f) \<rparr>"

section \<open>Bumping the workspaces\<close>

definition rewrite_dependency :: "json \<Rightarrow> string \<Rightarrow> error + json" where
  \<comment> \<open>\<open>buildReplacementDepencencyVersion\<close> applied to the value of a dependency.  A string
      is rewritten.  \<open>semver.parse\<close> rejects every other value; \<open>semver.coerce\<close> converts a
      number to its text and rejects the rest, and a number that it coerces has no
      \<open>replace\<close> method.  The text of a number is its decimal digits only up to
      \<open>MAX_SAFE_INTEGER\<close> in absolute value (from \<open>1e21\<close> on the text has an exponent, and
      between the two not every integer is a number): larger numbers are outside the
      model.\<close>
  "rewrite_dependency existingVersion newVersion =
     (case existingVersion of
        JString s \<Rightarrow> Inr (JString (buildReplacementDepencencyVersion s newVersion))
      | JNum n \<Rightarrow>
          if \<bar>n\<bar> > int MAX_SAFE_INTEGER
          then Inl (Unmodelled ''a number outside the safe integers'')
          else if semver_coerce (show_int n) \<noteq> None
          then Inl (TypeError ''existingVersion.replace is not a function'')
          else Inr (JString newVersion)
      | _ \<Rightarrow> Inr (JString newVersion))"

fun update_props ::
  "workspaceInfo list \<Rightarrow> string \<Rightarrow> (string \<times> json) list \<Rightarrow> error option \<times> (string \<times> json) list" where
  \<comment> \<open>the \<open>for\<close>-\<open>in\<close> loop of \<open>_updateDependencies\<close> over the properties of an object; an
      exception leaves the properties after the failing one as they were\<close>
  "update_props workspaces newVersion [] = (None, [])"
| "update_props workspaces newVersion ((dependency, existingVersion) # rest) =
     (if Some (JString dependency) \<in> set (map name workspaces) then
        (case rewrite_dependency existingVersion newVersion of
           Inl err \<Rightarrow> (Some err, (dependency, existingVersion) # rest)
         | Inr replacement \<Rightarrow>
             (case update_props workspaces newVersion rest of
                (r, rest') \<Rightarrow> (r, (dependency, replacement) # rest')))
      else (case update_props workspaces newVersion rest of
              (r, rest') \<Rightarrow> (r, (dependency, existingVersion) # rest')))"

fun update_elements ::
  "workspaceInfo list \<Rightarrow> string \<Rightarrow> nat \<Rightarrow> json list \<Rightarrow> error option \<times> json list" where
  \<comment> \<open>the same loop over an array, whose keys are its indices\<close>
  "update_elements workspaces newVersion i [] = (None, [])"
| "update_elements workspaces newVersion i (existingVersion # rest) =
     (if Some (JString (show_nat i)) \<in> set (map name workspaces) then
        (case rewrite_dependency existingVersion newVersion of
           Inl err \<Rightarrow> (Some err, existingVersion # rest)
         | Inr replacement \<Rightarrow>
             (case update_elements workspaces newVersion (Suc i) rest of
                (r, rest') \<Rightarrow> (r, replacement # rest')))
      else (case update_elements workspaces newVersion (Suc i) rest of
              (r, rest') \<Rightarrow> (r, existingVersion # rest')))"

definition updateDependencies ::
  "workspaceInfo list \<Rightarrow> json option \<Rightarrow> string \<Rightarrow> error option \<times> json option" where
  \<comment> \<open>\<open>_updateDependencies(dependencies, newVersion)\<close>: the result is the exception, if
      any, and the object as the call leaves it.  A string has its indices as keys and
      cannot be assigned to (class bodies are strict code); numbers and booleans have
      no keys.\<close>
  "updateDependencies workspaces dependencies newVersion =
     (if \<not> truthy dependencies then (None, dependencies)
      else (case the dependencies of
              JObject props \<Rightarrow>
                (case update_props workspaces newVersion props of
                   (r, props') \<Rightarrow> (r, Some (JObject props')))
            | JArray xs \<Rightarrow>
                (case update_elements workspaces newVersion 0 xs of
                   (r, xs') \<Rightarrow> (r, Some (JArray xs')))
            | JString s \<Rightarrow>
                (if list_ex (\<lambda>i. Some (JString (show_nat i)) \<in> set (map name workspaces))
                      [0 ..< length s]
                 then (Some (TypeError ''Cannot assign to read only property of string''),
                       dependencies)
                 else (None, dependencies))
            | _ \<Rightarrow> (None, dependencies)))"

definition update_dependency_field ::
  "workspaceInfo list \<Rightarrow> string \<Rightarrow> string \<Rightarrow> json \<Rightarrow> error option \<times> json" where
  \<comment> \<open>\<open>this._updateDependencies(pkg[field], version)\<close>: the table is part of the manifest,
      so the manifest changes with it\<close>
  "update_dependency_field workspaces newVersion field manifest =
     (case manifest of
        JObject props \<Rightarrow>
          (case updateDependencies workspaces (map_of props field) newVersion of
             (r, None) \<Rightarrow> (r, manifest)
           | (r, Some dependencies) \<Rightarrow> (r, JObject (set_field field dependencies props)))
      | _ \<Rightarrow> (None, manifest))"

fun update_dependency_fields ::
  "workspaceInfo list \<Rightarrow> string \<Rightarrow> string list \<Rightarrow> json \<Rightarrow> error option \<times> json" where
  \<comment> \<open>the calls of \<open>_updateDependencies\<close> one after the other; the first exception ends
      them\<close>
  "update_dependency_fields workspaces newVersion [] manifest = (None, manifest)"
| "update_dependency_fields workspaces newVersion (field # rest) manifest =
     (case update_dependency_field workspaces newVersion field manifest of
        (Some err, manifest') \<Rightarrow> (Some err, manifest')
      | (None, manifest') \<Rightarrow> update_dependency_fields workspaces newVersion rest manifest')"

definition dependency_fields :: "string list" where
  "dependency_fields =
     [''dependencies'', ''devDependencies'', ''optionalDependencies'', ''peerDependencies'']"

definition set_version :: "json \<Rightarrow> string \<Rightarrow> error + json" where
  \<comment> \<open>\<open>pkg.version = version\<close>: a property set on an array is not part of its JSON value;
      a property cannot be created on a string, a number or a boolean in strict code\<close>
  "set_version manifest newVersion =
     (case manifest of
        JObject props \<Rightarrow> Inr (JObject (set_field ''version'' (JString newVersion) props))
      | JArray xs \<Rightarrow> Inr (JArray xs)
      | _ \<Rightarrow> Inl (TypeError ''Cannot create property version''))"

definition bump_workspace ::
  "workspaceInfo list \<Rightarrow> string \<Rightarrow> workspaceInfo \<Rightarrow> world \<Rightarrow> error option \<times> workspaceInfo \<times> world" where
  \<comment> \<open>the body of the \<open>forEach\<close> in \<open>bump\<close>, for one workspace; the first argument is the
      list that \<open>getWorkspaces\<close> returns\<close>
  "bump_workspace workspaces newVersion workspace w =
     (if pkg (pkgInfo workspace) = JNull
      then (Some (TypeError ''Cannot read properties of null (reading version)''), workspace, w)
      else
        (let originalVersion = get_prop (pkg (pkgInfo workspace)) ''version'';
             w1 = (if originalVersion = Some (JString newVersion)
                   then log_warn (''Did not update version in package.json, etc. (already at ''
                                  @ newVersion @ '').'') w
                   else w)
         in case set_version (pkg (pkgInfo workspace)) newVersion of
              Inl err \<Rightarrow> (Some err, workspace, w1)
            | Inr manifest1 \<Rightarrow>
                (case update_dependency_fields workspaces newVersion dependency_fields manifest1 of
                   (Some err, manifest2) \<Rightarrow>
                     (Some err,
                      workspace\<lparr> pkgInfo := (pkgInfo workspace)\<lparr> pkg := manifest2 \<rparr> \<rparr>, w1)
                 | (None, manifest2) \<Rightarrow>
                     (None,
                      workspace\<lparr> pkgInfo := (pkgInfo workspace)\<lparr> pkg := manifest2 \<rparr> \<rparr>,
                      JSONFile_write ((pkgInfo workspace)\<lparr> pkg := manifest2 \<rparr>) w1))))"

fun bump_workspaces ::
  "workspaceInfo list \<Rightarrow> string \<Rightarrow> workspaceInfo list \<Rightarrow> world
     \<Rightarrow> error option \<times> workspaceInfo list \<times> world" where
  \<comment> \<open>\<open>workspaces.forEach\<close>\<close>
  "bump_workspaces workspaces newVersion [] w = (None, [], w)"
| "bump_workspaces workspaces newVersion (workspace # rest) w =
     (case bump_workspace workspaces newVersion workspace w of
        (Some err, workspace', w') \<Rightarrow> (Some err, workspace' # rest, w')
      | (None, workspace', w') \<Rightarrow>
          (case bump_workspaces workspaces newVersion rest w' of
             (r, rest', w'') \<Rightarrow> (r, workspace' # rest', w'')))"

fun js_toString :: "json \<Rightarrow> string" where
  \<comment> \<open>\<open>String(value)\<close>\<close>
  "js_toString JNull = ''null''"
| "js_toString (JBool b) = (if b then ''true'' else ''false'')"
| "js_toString (JNum n) = show_int n"
| "js_toString (JString s) = s"
| "js_toString (JArray xs) =
     join_with '','' (map (\<lambda>x. if x = JNull then [] else js_toString x) xs)"
| "js_toString (JObject props) = ''[object Object]''"

definition js_join :: "string \<Rightarrow> json option list \<Rightarrow> string" where
  \<comment> \<open>\<open>Array.prototype.join\<close>: \<open>undefined\<close> and \<open>null\<close> give the empty text\<close>
  "js_join sep xs =
     join_with sep
       (map (\<lambda>x. case x of None \<Rightarrow> [] | Some v \<Rightarrow> if v = JNull then [] else js_toString v) xs)"

record plugin_context =
  ctx_distTag :: "string option"
  ctx_version :: string
  ctx_packageNames :: "json option list"

definition bump ::
  "env \<Rightarrow> string option \<Rightarrow> string \<Rightarrow> workspaceInfo list \<Rightarrow> world
     \<Rightarrow> error option \<times> plugin_context option \<times> workspaceInfo list \<times> world" where
  \<comment> \<open>\<open>bump(version)\<close>: the second argument is \<open>options.distTag\<close>, the fourth the list that
      \<open>getWorkspaces\<close> returns.  The result is the exception, if any, what \<open>setContext\<close>
      stored, the workspaces and the world.\<close>
  "bump e distTag newVersion workspaces w =
     (case bump_distTag distTag newVersion of
        Inl err \<Rightarrow> (Some err, None, workspaces, w)
      | Inr tg \<Rightarrow>
          (let packageNames = map name workspaces;
               ctx = \<lparr> ctx_distTag = tg, ctx_version = newVersion,
                       ctx_packageNames = packageNames \<rparr>
           in if isDryRun e
              then (None, Some ctx, workspaces,
                    w\<lparr> log := log w @ [Exec (''Bumping versions in '' @ js_join '', '' packageNames)] \<rparr>)
              else (case bump_workspaces workspaces newVersion workspaces w of
                      (r, workspaces', w') \<Rightarrow> (r, Some ctx, workspaces', w'))))"

section \<open>\<open>JSON.parse\<close>\<close>

text \<open>
  The parser follows the JSON grammar on ASCII text.  Its answer is the value and the
  input after it, a rejection (a \<open>SyntaxError\<close>), or \<open>Outside\<close> for what the model does not
  cover: a number with a fraction, an exponent or a magnitude above \<open>2^53\<close>, a character
  outside ASCII in a string, a \<open>\u\<close> escape above \<open>007f\<close>, and an object key that is an array
  index (which JavaScript would enumerate before the other keys).  A key that occurs
  twice keeps its first place and its last value.
\<close>

datatype 'a parsed = Parsed 'a | Rejected | Outside

definition json_ws :: "char \<Rightarrow> bool" where
  "json_ws c = (c = CHR '' '' \<or> c = TAB \<or> c = LF \<or> c = CR)"

definition skip_ws :: "string \<Rightarrow> string" where
  "skip_ws s = dropWhile json_ws s"

definition hex_value :: "char \<Rightarrow> nat option" where
  "hex_value c =
     (if is_digit c then Some (of_char c - 48)
      else if c \<in> set ''abcdef'' then Some (of_char c - 87)
      else if c \<in> set ''ABCDEF'' then Some (of_char c - 55)
      else None)"

definition is_array_index :: "string \<Rightarrow> bool" where
  "is_array_index k = (numeric_identifier k \<and> nat_of_digits k < 4294967295)"

definition map_parsed :: "('a \<Rightarrow> 'b) \<Rightarrow> 'a parsed \<Rightarrow> 'b parsed" where
  "map_parsed f p = (case p of Parsed x \<Rightarrow> Parsed (f x) | Rejected \<Rightarrow> Rejected | Outside \<Rightarrow> Outside)"

definition unescape :: "char \<Rightarrow> char option" where
  \<comment> \<open>the character that follows a backslash, other than \<open>u\<close>\<close>
  "unescape e =
     map_of [(DQ, DQ), (BSL, BSL), (CHR ''/'', CHR ''/''), (CHR ''b'', CHR 0x08),
             (CHR ''f'', CHR 0x0C), (CHR ''n'', LF), (CHR ''r'', CR), (CHR ''t'', TAB)] e"

definition string_step :: "string \<Rightarrow> (char \<times> string) parsed" where
  \<comment> \<open>one character of a string literal, escape sequences decoded, and the input after
      it\<close>
  "string_step s =
     (case s of
        [] \<Rightarrow> Rejected
      | c # cs \<Rightarrow>
          if c = BSL then
            (case cs of
               [] \<Rightarrow> Rejected
             | e # r \<Rightarrow>
                 if e = CHR ''u'' then
                   (case r of
                      h1 # h2 # h3 # h4 # r' \<Rightarrow>
                        (case (hex_value h1, hex_value h2, hex_value h3, hex_value h4) of
                           (Some a, Some b, Some c', Some d) \<Rightarrow>
                             if a = 0 \<and> b = 0 \<and> c' < 8 then Parsed (char_of (16 * c' + d), r')
                             else Outside
                         | _ \<Rightarrow> Rejected)
                    | _ \<Rightarrow> Rejected)
                 else (case unescape e of None \<Rightarrow> Rejected | Some x \<Rightarrow> Parsed (x, r)))
          else if (of_char c :: nat) < 32 then Rejected
          else if (of_char c :: nat) \<ge> 128 then Outside
          else Parsed (c, cs))"

lemma string_step_length: "string_step s = Parsed (x, r) \<Longrightarrow> length r < length s"
  by (auto simp: string_step_def split: list.splits if_splits option.splits)

function parse_string_chars :: "string \<Rightarrow> (string \<times> string) parsed" where
  "parse_string_chars s =
     (case s of
        [] \<Rightarrow> Rejected
      | c # cs \<Rightarrow>
          if c = DQ then Parsed ([], cs)
          else (case string_step s of
                  Parsed (x, r) \<Rightarrow> map_parsed (\<lambda>(t, rest). (x # t, rest)) (parse_string_chars r)
                | Rejected \<Rightarrow> Rejected
                | Outside \<Rightarrow> Outside))"
  by pat_completeness auto
termination
  by (relation "measure length") (auto dest: string_step_length)

declare parse_string_chars.simps [simp del]

lemma parse_string_chars_length:
  "parse_string_chars cs = Parsed (s, rest) \<Longrightarrow> length rest < length cs"
proof (induction cs arbitrary: s rest rule: parse_string_chars.induct)
  case (1 cs)
  show ?case
  proof (cases cs)
    case Nil
    with "1.prems" show ?thesis by (simp add: parse_string_chars.simps)
  next
    case (Cons c cs')
    show ?thesis
    proof (cases "c = DQ")
      case True
      with "1.prems" Cons show ?thesis by (simp add: parse_string_chars.simps)
    next
      case False
      with "1.prems" Cons obtain x r t where
        st: "string_step cs = Parsed (x, r)" and rec: "parse_string_chars r = Parsed (t, rest)"
        by (subst (asm) parse_string_chars.simps)
           (auto simp: map_parsed_def split: parsed.splits prod.splits)
      from "1.IH" [OF Cons False st refl rec] string_step_length [OF st] show ?thesis by simp
    qed
  qed
qed

text \<open>
  The functions for values, array elements and object members call each other.  The
  comparisons of lengths are always true (a value is at least one character long); they
  make the termination of the definition evident.
\<close>

lemma skip_ws_length: "length (skip_ws s) \<le> length s"
  by (simp add: skip_ws_def length_dropWhile_le)

lemma skip_ws_Cons_length: "skip_ws s = d # r \<Longrightarrow> length r < length s"
  using skip_ws_length [of s] by simp

definition parse_number :: "string \<Rightarrow> (json \<times> string) parsed" where
  \<comment> \<open>an integer literal below \<open>2^53\<close>; a fraction or an exponent is not modelled\<close>
  "parse_number s =
     (let neg = (case s of [] \<Rightarrow> False | c # cs \<Rightarrow> c = CHR ''-'');
          s1 = (if neg then tl s else s);
          ds = takeWhile is_digit s1;
          r = dropWhile is_digit s1
      in if \<not> numeric_identifier ds then Rejected
         else if (case r of [] \<Rightarrow> False | c # cs \<Rightarrow> c \<in> set ''.eE'') then Outside
         else if nat_of_digits ds > MAX_SAFE_INTEGER then Outside
         else Parsed (JNum (if neg then - int (nat_of_digits ds) else int (nat_of_digits ds)), r))"

function parse_value :: "string \<Rightarrow> (json \<times> string) parsed"
  and parse_elements :: "string \<Rightarrow> json list \<Rightarrow> (json \<times> string) parsed"
  and parse_members :: "string \<Rightarrow> (string \<times> json) list \<Rightarrow> (json \<times> string) parsed" where
  "parse_value s =
     (case s of
        [] \<Rightarrow> Rejected
      | c # cs \<Rightarrow>
          if c = CHR ''{'' then
            (case skip_ws cs of
               [] \<Rightarrow> Rejected
             | d # r \<Rightarrow> if d = CHR ''}'' then Parsed (JObject [], r) else parse_members (d # r) [])
          else if c = CHR ''['' then
            (case skip_ws cs of
               [] \<Rightarrow> Rejected
             | d # r \<Rightarrow> if d = CHR '']'' then Parsed (JArray [], r) else parse_elements (d # r) [])
          else if c = DQ then map_parsed (\<lambda>(t, rest). (JString t, rest)) (parse_string_chars cs)
          else if is_prefix ''true'' s then Parsed (JBool True, drop 4 s)
          else if is_prefix ''false'' s then Parsed (JBool False, drop 5 s)
          else if is_prefix ''null'' s then Parsed (JNull, drop 4 s)
          else parse_number s)"
| "parse_elements s acc =
     (case parse_value s of
        Parsed (v, rest) \<Rightarrow>
          if length rest < length s then
            (case skip_ws rest of
               [] \<Rightarrow> Rejected
             | d # r \<Rightarrow>
                 if d = CHR '','' then parse_elements (skip_ws r) (acc @ [v])
                 else if d = CHR '']'' then Parsed (JArray (acc @ [v]), r)
                 else Rejected)
          else Rejected
      | Rejected \<Rightarrow> Rejected
      | Outside \<Rightarrow> Outside)"
| "parse_members s acc =
     (case s of
        [] \<Rightarrow> Rejected
      | c # cs \<Rightarrow>
          if c \<noteq> DQ then Rejected
          else
            (case parse_string_chars cs of
               Parsed (k, rest) \<Rightarrow>
                 (case skip_ws rest of
                    [] \<Rightarrow> Rejected
                  | d # r \<Rightarrow>
                      if d \<noteq> CHR '':'' then Rejected
                      else
                        (case parse_value (skip_ws r) of
                           Parsed (v, rest2) \<Rightarrow>
                             if length rest2 < length s then
                               (if is_array_index k then Outside
                                else
                                  (case skip_ws rest2 of
                                     [] \<Rightarrow> Rejected
                                   | d2 # r2 \<Rightarrow>
                                       if d2 = CHR '','' then
                                         parse_members (skip_ws r2) (set_field k v acc)
                                       else if d2 = CHR ''}'' then
                                         Parsed (JObject (set_field k v acc), r2)
                                       else Rejected))
                             else Rejected
                         | Rejected \<Rightarrow> Rejected
                         | Outside \<Rightarrow> Outside))
             | Rejected \<Rightarrow> Rejected
             | Outside \<Rightarrow> Outside))"
  by pat_completeness auto
termination
proof (relation "measure (\<lambda>x. case x of
                      Inl s \<Rightarrow> 2 * length s
                    | Inr (Inl (s, acc)) \<Rightarrow> 2 * length s + 1
                    | Inr (Inr (s, acc)) \<Rightarrow> 2 * length s + 1)", goal_cases)
  case 1
  show ?case by simp
next
  case (2 s c cs d r)
  then show ?case using skip_ws_length [of cs] by simp
next
  case (3 s c cs d r)
  then show ?case using skip_ws_length [of cs] by simp
next
  case (4 s acc)
  show ?case by simp
next
  case (5 s acc x v rest d r)
  then show ?case
    using skip_ws_length [of r] skip_ws_length [of rest] by simp
next
  case (6 s acc c cs x k rest d r)
  then show ?case
    using skip_ws_length [of r] skip_ws_length [of rest] parse_string_chars_length [of cs k rest]
    by simp
next
  case (7 s acc c cs x k rest d r y v rest2 d2 r2)
  then show ?case
    using skip_ws_length [of r2] skip_ws_length [of rest2] by simp
qed

declare parse_value.simps [simp del] parse_elements.simps [simp del] parse_members.simps [simp del]

definition JSON_parse :: "string \<Rightarrow> error + json" where
  "JSON_parse s =
     (case parse_value (skip_ws s) of
        Parsed (v, rest) \<Rightarrow>
          if skip_ws rest = [] then Inr v
          else Inl (SyntaxError ''Unexpected non-whitespace character after JSON'')
      | Rejected \<Rightarrow> Inl (SyntaxError ''Unexpected token in JSON'')
      | Outside \<Rightarrow> Inl (Unmodelled ''JSON outside the model''))"

section \<open>Loading a manifest: the constructor of \<open>JSONFile\<close>\<close>

fun count_newlines :: "bool \<Rightarrow> string \<Rightarrow> nat \<times> nat" where
  \<comment> \<open>the numbers of \<open>\r\n\<close> and of other \<open>\n\<close> in the text; the flag says that the previous
      character is \<open>\r\<close>\<close>
  "count_newlines after_cr [] = (0, 0)"
| "count_newlines after_cr (c # cs) =
     (case count_newlines (c = CR) cs of
        (crlf, lf) \<Rightarrow>
          if c = LF then (if after_cr then (Suc crlf, lf) else (crlf, Suc lf))
          else (crlf, lf))"

definition detectNewline :: "string \<Rightarrow> string option" where
  \<comment> \<open>the package \<open>detect-newline\<close>: \<open>undefined\<close> without a newline, else the more frequent
      of \<open>\r\n\<close> and \<open>\n\<close>, \<open>\n\<close> on a tie\<close>
  "detectNewline s =
     (case count_newlines False s of
        (crlf, lf) \<Rightarrow>
          if crlf + lf = 0 then None
          else if crlf > lf then Some [CR, LF]
          else Some [LF])"

datatype indent_type = Space | Tab

definition line_indent :: "string \<Rightarrow> (indent_type \<times> nat) option" where
  \<comment> \<open>the match of \<open>/^(?:( )+|\t+)/\<close>: a run of spaces or a run of tabs at the start of
      the line\<close>
  "line_indent line =
     (case line of
        [] \<Rightarrow> None
      | c # cs \<Rightarrow>
          if c = CHR '' '' then Some (Space, length (takeWhile (\<lambda>x. x = CHR '' '') line))
          else if c = TAB then Some (Tab, length (takeWhile (\<lambda>x. x = TAB) line))
          else None)"

record indent_state =
  previousSize :: nat
  previousIndentType :: "indent_type option"
  indentKey :: "(indent_type \<times> nat) option"
  indentsMap :: "((indent_type \<times> nat) option \<times> nat \<times> nat) list"

fun update_entry ::
  "(indent_type \<times> nat) option \<Rightarrow> nat \<Rightarrow> ((indent_type \<times> nat) option \<times> nat \<times> nat) list
     \<Rightarrow> ((indent_type \<times> nat) option \<times> nat \<times> nat) list" where
  \<comment> \<open>\<open>indents.set(key, entry)\<close>: a new key gets \<open>[1, 0]\<close>, a known one is counted once more
      and gains the weight\<close>
  "update_entry k weight [] = [(k, 1, 0)]"
| "update_entry k weight ((k', used, w) # rest) =
     (if k' = k then (k', Suc used, w + weight) # rest
      else (k', used, w) # update_entry k weight rest)"

definition indent_step :: "bool \<Rightarrow> indent_state \<Rightarrow> string \<Rightarrow> indent_state" where
  \<comment> \<open>the body of the loop over the lines in \<open>makeIndentsMap\<close>\<close>
  "indent_step ignoreSingleSpaces st line =
     (if line = [] then st
      else (case line_indent line of
              None \<Rightarrow> st\<lparr> previousSize := 0, previousIndentType := None \<rparr>
            | Some (indentType, indentSize) \<Rightarrow>
                if ignoreSingleSpaces \<and> indentType = Space \<and> indentSize = 1 then st
                else
                  (let previous = (if Some indentType \<noteq> previousIndentType st then 0
                                   else previousSize st);
                       k = (if indentSize = previous then indentKey st
                            else Some (indentType, if indentSize > previous then indentSize - previous
                                                   else previous - indentSize));
                       weight = (if indentSize = previous then 1 else 0)
                   in \<lparr> previousSize = indentSize, previousIndentType = Some indentType,
                        indentKey = k, indentsMap = update_entry k weight (indentsMap st) \<rparr>)))"

definition makeIndentsMap ::
  "string \<Rightarrow> bool \<Rightarrow> ((indent_type \<times> nat) option \<times> nat \<times> nat) list" where
  "makeIndentsMap s ignoreSingleSpaces =
     indentsMap
       (foldl (indent_step ignoreSingleSpaces)
          \<lparr> previousSize = 0, previousIndentType = None, indentKey = None, indentsMap = [] \<rparr>
          (split_on LF s))"

definition getMostUsedKey ::
  "((indent_type \<times> nat) option \<times> nat \<times> nat) list \<Rightarrow> (indent_type \<times> nat) option" where
  "getMostUsedKey m =
     fst (foldl (\<lambda>(result, maxUsed, maxWeight) (k, used, weight).
                   if used > maxUsed \<or> (used = maxUsed \<and> weight > maxWeight)
                   then (k, used, weight) else (result, maxUsed, maxWeight))
            (None, 0, 0) m)"

definition detectIndent_amount :: "string \<Rightarrow> nat" where
  \<comment> \<open>\<open>detectIndent(s).amount\<close> of the package \<open>detect-indent\<close> (version 6.1): the size of
      the most frequent change of indentation between consecutive lines, single spaces
      counted only when nothing else is found\<close>
  "detectIndent_amount s =
     (let m1 = makeIndentsMap s True;
          m = (if m1 = [] then makeIndentsMap s False else m1)
      in case getMostUsedKey m of None \<Rightarrow> 0 | Some (indentType, amount) \<Rightarrow> amount)"

definition JSONFile_new :: "string \<Rightarrow> world \<Rightarrow> error + JSONFile" where
  \<comment> \<open>the constructor of the class \<open>JSONFile\<close>: the file is read from the world\<close>
  "JSONFile_new fname w =
     (case files w fname of
        None \<Rightarrow> Inl (Error (''ENOENT: no such file or directory, open '' @ fname))
      | Some contents \<Rightarrow>
          (case JSON_parse contents of
             Inl err \<Rightarrow> Inl err
           | Inr v \<Rightarrow>
               Inr \<lparr> filename = fname, pkg = v, lineEndings = detectNewline contents,
                     indent = detectIndent_amount contents,
                     trailingWhitespace = rev (takeWhile is_space (rev contents)) \<rparr>))"

section \<open>Reading a text line by line\<close>

text \<open>
  Notions for the analysis of \<open>makeIndentsMap\<close> on a text that \<open>JSON.stringify\<close>
  produced: the text is read character by character, with the part of the current
  line read so far, and the state of the loop is related to the nesting depth of the
  line.
\<close>

abbreviation sp :: "nat \<Rightarrow> string" where
  "sp k \<equiv> replicate k (CHR '' '')"

definition scan :: "bool \<Rightarrow> indent_state \<times> string \<Rightarrow> string \<Rightarrow> indent_state \<times> string" where
  "scan ig s body =
     foldl (\<lambda>(st, cur) c. if c = LF then (indent_step ig st cur, []) else (st, cur @ [c])) s body"

definition eff_prev :: "indent_state \<Rightarrow> nat" where
  \<comment> \<open>the size that \<open>indent_step\<close> compares a line indented with spaces to\<close>
  "eff_prev st = (if previousIndentType st = Some Space then previousSize st else 0)"

definition map_ok :: "nat \<Rightarrow> indent_state \<Rightarrow> bool" where
  \<comment> \<open>only changes by \<open>n\<close> spaces were seen so far\<close>
  "map_ok n st \<longleftrightarrow>
     (indentsMap st = [] \<or> (\<exists>u w. indentsMap st = [(Some (Space, n), Suc u, w)])) \<and>
     (if 0 < eff_prev st then indentKey st = Some (Space, n) else True)"

definition st_ok :: "nat \<Rightarrow> nat \<Rightarrow> indent_state \<Rightarrow> bool" where
  \<comment> \<open>the state before a line at depth \<open>d\<close> is processed\<close>
  "st_ok n d st \<longleftrightarrow>
     map_ok n st \<and>
     (eff_prev st = d * n \<or> eff_prev st = d * n + n \<or> eff_prev st + n = d * n \<or> d = 0)"

definition line_pre :: "nat \<Rightarrow> nat \<Rightarrow> string \<Rightarrow> bool" where
  \<comment> \<open>the line so far: the indentation of depth \<open>d\<close>, and maybe content\<close>
  "line_pre n d cur \<longleftrightarrow>
     (\<exists>content. cur = sp (d * n) @ content \<and>
        (content = [] \<or> (hd content \<noteq> CHR '' '' \<and> (if d = 0 then hd content \<noteq> TAB else True))))"

definition line_at :: "nat \<Rightarrow> nat \<Rightarrow> string \<Rightarrow> bool" where
  \<comment> \<open>the line so far: the indentation of depth \<open>d\<close>, and content\<close>
  "line_at n d cur \<longleftrightarrow>
     (\<exists>content. cur = sp (d * n) @ content \<and> content \<noteq> [] \<and>
        hd content \<noteq> CHR '' '' \<and> (if d = 0 then hd content \<noteq> TAB else True))"

definition st_after :: "nat \<Rightarrow> nat \<Rightarrow> indent_state \<Rightarrow> bool" where
  \<comment> \<open>the state after a line at depth \<open>d\<close> was processed\<close>
  "st_after n d st \<longleftrightarrow>
     map_ok n st \<and> eff_prev st = d * n \<and> (if 0 < d then indentsMap st \<noteq> [] else True)"

definition scans :: "bool \<Rightarrow> nat \<Rightarrow> nat \<Rightarrow> bool \<Rightarrow> string \<Rightarrow> string \<Rightarrow> bool" where
  \<comment> \<open>reading \<open>body\<close>, written with the line ending \<open>le\<close>, in a line at depth \<open>d\<close> ends in a
      line at depth \<open>d\<close> and keeps the map; \<open>strict\<close>: the map is not empty afterwards\<close>
  "scans strict n d ig le body \<longleftrightarrow>
     (\<forall>st cur. st_ok n d st \<and> line_pre n d cur \<longrightarrow>
        (\<exists>st' cur'. scan ig (st, cur) (replace_newlines (Some le) body) = (st', cur') \<and>
           st_ok n d st' \<and> line_at n d cur' \<and>
           (indentsMap st \<noteq> [] \<longrightarrow> indentsMap st' \<noteq> []) \<and>
           (strict \<longrightarrow> indentsMap st' \<noteq> [])))"

definition flat :: "string \<Rightarrow> bool" where
  \<comment> \<open>a line that does not change the map: empty or not indented\<close>
  "flat cur \<longleftrightarrow> cur = [] \<or> line_indent cur = None"

definition map_only :: "nat \<Rightarrow> ((indent_type \<times> nat) option \<times> nat \<times> nat) list \<Rightarrow> bool" where
  "map_only n m \<longleftrightarrow> m = [] \<or> (\<exists>u w. m = [(Some (Space, n), Suc u, w)])"

section \<open>Manifests whose dependency tables hold version specifiers\<close>

definition specifier_table :: "workspaceInfo list \<Rightarrow> json option \<Rightarrow> bool" where
  \<comment> \<open>a dependency table as a manifest has it: absent (or falsy), or an object whose
      entries for the workspaces are strings\<close>
  "specifier_table workspaces table =
     (if \<not> truthy table then True
      else (case the table of
              JObject deps \<Rightarrow>
                list_all (\<lambda>(k, x). if Some (JString k) \<in> set (map name workspaces)
                                   then (case x of JString s \<Rightarrow> True | _ \<Rightarrow> False)
                                   else True) deps
            | _ \<Rightarrow> False))"

definition well_formed_manifest :: "workspaceInfo list \<Rightarrow> json \<Rightarrow> bool" where
  \<comment> \<open>an object of the model whose four dependency tables are such tables\<close>
  "well_formed_manifest workspaces manifest =
     (in_model manifest \<and>
      (case manifest of
         JObject props \<Rightarrow>
           list_all (\<lambda>field. specifier_table workspaces (map_of props field))
             [''dependencies'', ''devDependencies'', ''optionalDependencies'', ''peerDependencies'']
       | _ \<Rightarrow> False))"

definition already_at :: "string \<Rightarrow> string" where
  "already_at v = ''Did not update version in package.json, etc. (already at '' @ v @ '').''"

definition bumped :: "workspaceInfo list \<Rightarrow> string \<Rightarrow> workspaceInfo \<Rightarrow> workspaceInfo \<Rightarrow> bool" where
  \<comment> \<open>in every world, the body of the loop turns the first workspace into the second
      without an exception, and writes its manifest after the warning, if any\<close>
  "bumped wss v x x' \<longleftrightarrow>
     filename (pkgInfo x') = filename (pkgInfo x) \<and>
     (\<forall>w. bump_workspace wss v x w =
            (None, x',
             JSONFile_write (pkgInfo x')
               (if get_prop (pkg (pkgInfo x)) ''version'' = Some (JString v)
                then log_warn (already_at v) w else w)))"

section \<open>Sample data\<close>

text \<open>Concrete inputs at which the theorems below are instantiated.\<close>

definition sample_world :: world where
  "sample_world = \<lparr> cwd = ''/repo'', log = [], executed = [], prompts = 0, otp = None,
                    files = (\<lambda>path. None) \<rparr>"

definition sample_package :: "string \<Rightarrow> string \<Rightarrow> (string \<times> json) list \<Rightarrow> workspaceInfo" where
  \<comment> \<open>a discovered workspace: its name, its version and its \<open>dependencies\<close> table\<close>
  "sample_package nm ver deps =
     \<lparr> root = ''/repo/packages/'' @ nm, relativeRoot = ''packages/'' @ nm,
       name = Some (JString nm), isPrivate = False, isReleased = False,
       pkgInfo = \<lparr> filename = ''/repo/packages/'' @ nm @ ''/package.json'',
                   pkg = JObject ([(''name'', JString nm), (''version'', JString ver)]
                                  @ (if deps = [] then [] else [(''dependencies'', JObject deps)])),
                   lineEndings = Some [CHR 0x0A], indent = 2,
                   trailingWhitespace = [CHR 0x0A] \<rparr> \<rparr>"

definition sample_workspace :: "string \<Rightarrow> workspaceInfo" where
  "sample_workspace nm = sample_package nm ''1.0.0'' []"

definition sample_env :: "error option \<Rightarrow> env" where
  "sample_env outcome =
     \<lparr> directory_exists = (\<lambda>d. True), npm = (\<lambda>n d c. outcome), otp_answer = (\<lambda>n. None),
       public_answer = (\<lambda>n. False), isDryRun = False \<rparr>"

definition sample_action :: "workspaceInfo \<Rightarrow> world \<Rightarrow> ((error + unit) \<times> workspaceInfo \<times> world) option" where
  \<comment> \<open>an action that records where it runs, leaves the process in another directory,
      and throws for the workspace \<open>b\<close>\<close>
  "sample_action x s =
     Some (if name x = Some (JString ''b'') then Inl (Error ''failed'') else Inr (), x,
           s\<lparr> cwd := ''/tmp'', log := log s @ [Log (cwd s)] \<rparr>)"

definition private_packages_error :: error where
  "private_packages_error =
     Error ''402 Payment Required - You must sign up for private packages''"

definition sample_siblings :: "workspaceInfo list" where
  \<comment> \<open>two workspaces at \<open>2.0.0\<close>, the second depending on the first at \<open>^1.0.0\<close>\<close>
  "sample_siblings =
     [sample_package ''a'' ''2.0.0'' [],
      sample_package ''b'' ''2.0.0'' [(''a'', JString ''^1.0.0'')]]"

definition numeric_sibling :: "workspaceInfo list" where
  \<comment> \<open>the workspace \<open>a\<close> at \<open>1.0.0\<close> and the workspace \<open>b\<close> at \<open>2.0.0\<close>, which has the
      number 5 as the specifier of \<open>a\<close>\<close>
  "numeric_sibling =
     [sample_package ''a'' ''1.0.0'' [], sample_package ''b'' ''2.0.0'' [(''a'', JNum 5)]]"

definition numeric_earlier :: "workspaceInfo list" where
  \<comment> \<open>the workspace \<open>a\<close> at \<open>1.0.0\<close>, which has the number 5 as the specifier of \<open>b\<close>, and
      the workspace \<open>b\<close> at \<open>2.0.0\<close>\<close>
  "numeric_earlier =
     [sample_package ''a'' ''1.0.0'' [(''b'', JNum 5)], sample_package ''b'' ''2.0.0'' []]"

definition manifest_world :: "string \<Rightarrow> world" where
  \<comment> \<open>a world whose root manifest has the given text\<close>
  "manifest_world contents =
     sample_world\<lparr> files := (files sample_world)(''/repo/package.json'' \<mapsto> contents) \<rparr>"

definition tab_manifest :: string where
  \<comment> \<open>a manifest indented with one tab\<close>
  "tab_manifest =
     ''{'' @ [LF] @
     [TAB, DQ] @ ''name'' @ [DQ] @ '': '' @ [DQ] @ ''a'' @ [DQ, LF] @
     ''}'' @ [LF]"

definition inline_manifest :: string where
  \<comment> \<open>a manifest indented with two spaces, with an array on one line\<close>
  "inline_manifest =
     ''{'' @ [LF] @
     ''  '' @ [DQ] @ ''name'' @ [DQ] @ '': '' @ [DQ] @ ''a'' @ [DQ] @ '','' @ [LF] @
     ''  '' @ [DQ] @ ''files'' @ [DQ] @ '': ['' @ [DQ] @ ''lib'' @ [DQ] @ '']'' @ [LF] @
     ''}'' @ [LF]"

definition wide_manifest :: string where
  \<comment> \<open>a manifest indented with four spaces, with \<open>\r\n\<close> line endings and a blank line at
      the end\<close>
  "wide_manifest =
     ''{'' @ [CR, LF] @
     ''    '' @ [DQ] @ ''name'' @ [DQ] @ '': '' @ [DQ] @ ''a'' @ [DQ] @ '','' @ [CR, LF] @
     ''    '' @ [DQ] @ ''files'' @ [DQ] @ '': ['' @ [CR, LF] @
     ''        '' @ [DQ] @ ''lib'' @ [DQ, CR, LF] @
     ''    ]'' @ [CR, LF] @
     ''}'' @ [CR, LF, CR, LF]"

section \<open>Evaluation rules and auxiliary facts\<close>

lemmas char_class_defs = is_digit_def is_letter_def is_space_def is_letterdashnumber_def
lemmas semver_defs = semver_parse_def match_full_def match_numeric_def match_tail_def
  numeric_identifier_def prerelease_identifier_def build_identifier_def numberify_def
  js_trim_def nat_of_digits_def MAX_LENGTH_def MAX_SAFE_INTEGER_def MAX_SAFE_COMPONENT_LENGTH_def
  semver_coerce_def coerce_match_def coerce_component_def semver_valid_def semver_toString_def
  show_prerelease_id_def
lemmas nan_defs = js_isNaN_string_def non_decimal_literal_def unsigned_decimal_literal_def exponent_part_def



lemma is_prefix_hd: "is_prefix (d # ds) (c # cs) \<Longrightarrow> c = d"
  by simp


lemma takeWhile_digits_append:
  "list_all is_digit a \<Longrightarrow> (case r of [] \<Rightarrow> True | c # cs \<Rightarrow> \<not> is_digit c) \<Longrightarrow>
   takeWhile is_digit (a @ r) = a \<and> dropWhile is_digit (a @ r) = r"
  by (induction a) (auto split: list.splits)











lemma js_trim_id:
  "s \<noteq> [] \<Longrightarrow> \<not> is_space (hd s) \<Longrightarrow> \<not> is_space (last s) \<Longrightarrow> js_trim s = s"
proof -
  assume a: "s \<noteq> []" "\<not> is_space (hd s)" "\<not> is_space (last s)"
  then have 1: "dropWhile is_space s = s" by (cases s) auto
  from a have "rev s \<noteq> []" "\<not> is_space (hd (rev s))" by (auto simp: hd_rev)
  then have 2: "dropWhile is_space (rev s) = rev s" by (cases "rev s") auto
  show ?thesis by (simp add: js_trim_def 1 2)
qed

lemma digit_not_space: "is_digit c \<Longrightarrow> \<not> is_space c \<and> c \<noteq> CHR ''v'' \<and> c \<noteq> CHR ''.''"
  by (auto simp: is_digit_def is_space_def)








section \<open>Dependency rewriting\<close>



section \<open>Version parsing\<close>

text \<open>
  Claim C6.  \<open>parseVersion\<close> of the empty string is the record of \<open>null\<close>, \<open>false\<close>
  and \<open>null\<close>; of \<open>2.0.0-beta.1\<close> it is a pre-release with identifier \<open>beta\<close>; of
  \<open>2.0.0-2\<close> it has no pre-release identifier, the first pre-release component being
  a number.
\<close>

theorem parseVersion_examples:
  "parseVersion (Some '''') = Inr \<lparr> version = None, isPreRelease = False, preReleaseId = None \<rparr> \<and>
   parseVersion (Some ''2.0.0-beta.1'') =
     Inr \<lparr> version = Some (VString ''2.0.0-beta.1''), isPreRelease = True,
           preReleaseId = Some ''beta'' \<rparr> \<and>
   parseVersion (Some ''2.0.0-2'') =
     Inr \<lparr> version = Some (VString ''2.0.0-2''), isPreRelease = True, preReleaseId = None \<rparr>"
proof -
  have 1: "semver_parse ''2.0.0-beta.1'' =
      Some \<lparr> major = 2, minor = 0, patch = 0, prerelease = [PStr ''beta'', PNum 1], build = [] \<rparr>"
    by (simp add: semver_defs char_class_defs Let_def)
  have 2: "semver_parse ''2.0.0-2'' =
      Some \<lparr> major = 2, minor = 0, patch = 0, prerelease = [PNum 2], build = [] \<rparr>"
    by (simp add: semver_defs char_class_defs Let_def)
  have 3: "js_isNaN_string ''beta''"
    by (simp add: nan_defs js_trim_def char_class_defs Let_def)
  show ?thesis
    by (simp add: parseVersion_def truthy_string_def semver_valid_def 1 2 3)
qed

text \<open>
  Claim C10.  When the existing specifier is not an exact version, can be coerced, and
  the coerced version's text does not occur in the specifier, the specifier is returned
  unchanged, whatever the new version.  \<open>^1.2\<close> is such a specifier: it is coerced to
  \<open>1.2.0\<close>.
\<close>

theorem rewrite_no_occurrence:
  "(semver_parse e = None \<and> semver_coerce e = Some c \<and> \<not> contains (semver_toString c) e
      \<longrightarrow> buildReplacementDepencencyVersion e v = e) \<and>
   map_option semver_toString (semver_coerce ''^1.2'') = Some ''1.2.0'' \<and>
   buildReplacementDepencencyVersion ''^1.2'' ''2.0.0'' = ''^1.2''"
proof -
  have ff: "\<not> contains pat s \<Longrightarrow> find_first pat s = None" for pat s
    by (induction s) (auto split: if_splits)
  have 1: "semver_parse e = None \<and> semver_coerce e = Some c \<and> \<not> contains (semver_toString c) e
      \<longrightarrow> buildReplacementDepencencyVersion e v = e"
    by (auto simp: buildReplacementDepencencyVersion_def js_replace_def ff)
  have 2: "map_option semver_toString (semver_coerce ''^1.2'') = Some ''1.2.0''"
    by (simp add: semver_defs char_class_defs show_nat.simps)
  have 3: "buildReplacementDepencencyVersion ''^1.2'' ''2.0.0'' = ''^1.2''"
    by (simp add: buildReplacementDepencencyVersion_def semver_defs char_class_defs
        js_replace_def show_nat.simps)
  from 1 2 3 show ?thesis by blast
qed

text \<open>The hypotheses hold at the specifier \<open>>=1.2\<close>.\<close>

theorem rewrite_no_occurrence_witness:
  "semver_parse ''>=1.2'' = None \<and>
   semver_coerce ''>=1.2'' = Some \<lparr> major = 1, minor = 2, patch = 0, prerelease = [], build = [] \<rparr> \<and>
   \<not> contains (semver_toString \<lparr> major = 1, minor = 2, patch = 0, prerelease = [], build = [] \<rparr>) ''>=1.2'' \<and>
   buildReplacementDepencencyVersion ''>=1.2'' ''2.0.0'' = ''>=1.2''"
proof -
  have h: "semver_parse ''>=1.2'' = None \<and>
   semver_coerce ''>=1.2'' = Some \<lparr> major = 1, minor = 2, patch = 0, prerelease = [], build = [] \<rparr> \<and>
   \<not> contains (semver_toString \<lparr> major = 1, minor = 2, patch = 0, prerelease = [], build = [] \<rparr>) ''>=1.2''"
    by (simp add: semver_defs char_class_defs show_nat.simps)
  show ?thesis
    using rewrite_no_occurrence [of "''>=1.2''" "\<lparr> major = 1, minor = 2, patch = 0, prerelease = [], build = [] \<rparr>" "''2.0.0''"] h
    by simp
qed

section \<open>Workspace configuration\<close>

text \<open>
  Claim C7, as the code has it.  An array is returned as it is; for any other non-null
  object the result is its \<open>packages\<close> property, which is \<open>undefined\<close> (and no error)
  when the object has none; every other value (\<open>undefined\<close>, \<open>null\<close>, a string, a number,
  a boolean) raises the error.
\<close>

theorem resolveWorkspaces_spec:
  "resolveWorkspaces (Some (JArray xs)) = Inr (Some (JArray xs)) \<and>
   resolveWorkspaces (Some (JObject props)) = Inr (map_of props ''packages'') \<and>
   ((\<forall>ys. w \<noteq> Some (JArray ys)) \<and> (\<forall>ps. w \<noteq> Some (JObject ps))
      \<longrightarrow> resolveWorkspaces w = Inl workspaces_error)"
  by (auto simp: resolveWorkspaces_def get_prop_def split: option.splits json.splits)

text \<open>The hypothesis of the last part holds at \<open>null\<close>.\<close>

theorem resolveWorkspaces_spec_witness:
  "(\<forall>ys. Some JNull \<noteq> Some (JArray ys)) \<and> (\<forall>ps. Some JNull \<noteq> Some (JObject ps)) \<and>
   resolveWorkspaces (Some JNull) = Inl workspaces_error \<and>
   resolveWorkspaces (Some (JObject [(''packages'', JArray [JString ''packages/*''])]))
     = Inr (Some (JArray [JString ''packages/*'']))"
  using resolveWorkspaces_spec
    [where props = "[(''packages'', JArray [JString ''packages/*''])]" and w = "Some JNull"]
  by simp

text \<open>
  An object without a \<open>packages\<close> property raises no error: the result is \<open>undefined\<close>.
\<close>

theorem resolveWorkspaces_object_without_packages:
  "resolveWorkspaces (Some (JObject [(''nohoist'', JArray [])])) = Inr None \<and>
   resolveWorkspaces (Some (JObject [(''nohoist'', JArray [])])) \<noteq> Inl workspaces_error"
  by (simp add: resolveWorkspaces_def get_prop_def)

section \<open>Distribution tag\<close>

lemma coerce_scan_digits:
  "coerce_scan b s = Some (run, rest) \<Longrightarrow> run \<noteq> [] \<and> list_all is_digit run"
proof (induction b s rule: coerce_scan.induct)
  case (1 prev)
  then show ?case by simp
next
  case (2 prev c cs)
  have tw: "list_all is_digit (takeWhile is_digit xs)" for xs :: string
    by (induction xs) auto
  from 2 tw [of cs] show ?case
    by (auto simp: Let_def split: if_splits)
qed

lemma coerce_component_digits:
  "coerce_component s = Some (run, rest) \<Longrightarrow> run \<noteq> [] \<and> list_all is_digit run"
proof -
  have tw: "list_all is_digit (takeWhile is_digit xs)" for xs :: string
    by (induction xs) auto
  assume "coerce_component s = Some (run, rest)"
  then show ?thesis using tw
    by (auto simp: coerce_component_def Let_def split: list.splits if_splits)
qed

lemma coerce_match_digits:
  assumes "coerce_match s = Some (a, b, c)"
  shows "a \<noteq> [] \<and> list_all is_digit a \<and> b \<noteq> [] \<and> list_all is_digit b \<and>
         c \<noteq> [] \<and> list_all is_digit c"
proof -
  have z: "list_all is_digit ''0''" by (simp add: is_digit_def)
  from assms show ?thesis
    using z
    by (auto simp: coerce_match_def split: option.splits
        dest!: coerce_scan_digits coerce_component_digits)
qed

lemma match_numeric_digits:
  "list_all is_digit a \<Longrightarrow> (case r of [] \<Rightarrow> True | c # cs \<Rightarrow> \<not> is_digit c) \<Longrightarrow>
   match_numeric (a @ r) = (if numeric_identifier a then Some (a, r) else None)"
  using takeWhile_digits_append [of a r] by (simp add: match_numeric_def)

lemma match_full_digits:
  assumes "a \<noteq> []" "list_all is_digit a" "list_all is_digit b" "list_all is_digit c"
    and "match_full (a @ ''.'' @ b @ ''.'' @ c) = Some (ma, mi, pa, pre, bld)"
  shows "pre = []"
proof -
  have nd: "\<not> is_digit CHR ''.''" by (simp add: is_digit_def)
  obtain d ds where a: "a = d # ds" and d: "is_digit d"
    using assms(1,2) by (cases a) auto
  have 1: "match_numeric (a @ (CHR ''.'' # b @ CHR ''.'' # c)) =
             (if numeric_identifier a then Some (a, CHR ''.'' # b @ CHR ''.'' # c) else None)"
    using assms nd by (intro match_numeric_digits) auto
  have 2: "match_numeric (b @ (CHR ''.'' # c)) =
             (if numeric_identifier b then Some (b, CHR ''.'' # c) else None)"
    using assms nd by (intro match_numeric_digits) auto
  have 3: "match_numeric (c @ []) = (if numeric_identifier c then Some (c, []) else None)"
    using assms by (intro match_numeric_digits) auto
  have "match_full (d # ds @ CHR ''.'' # b @ CHR ''.'' # c) = Some (ma, mi, pa, pre, bld)"
    using assms(5) by (simp add: a)
  then show ?thesis
    using 1 2 3 digit_not_space [OF d] unfolding a
    by (simp add: match_full_def match_tail_def split: if_splits)
qed

lemma semver_coerce_prerelease:
  assumes "semver_coerce v = Some sv"
  shows "prerelease sv = []"
proof -
  from assms obtain a b c where m: "coerce_match v = Some (a, b, c)"
    and p: "semver_parse (a @ ''.'' @ b @ ''.'' @ c) = Some sv"
    by (auto simp: semver_coerce_def split: option.splits)
  from coerce_match_digits [OF m] have dg: "a \<noteq> []" "list_all is_digit a" "b \<noteq> []"
    "list_all is_digit b" "c \<noteq> []" "list_all is_digit c" by simp_all
  let ?s = "a @ ''.'' @ b @ ''.'' @ c"
  have da: "is_digit (hd a)" and dc: "is_digit (last c)"
    using dg by (auto simp: list_all_iff)
  have "hd ?s = hd a" "last ?s = last c" using dg by auto
  then have trim: "js_trim ?s = ?s"
    using digit_not_space [OF da] digit_not_space [OF dc] dg by (intro js_trim_id) auto
  from p obtain ma mi pa pre bld where mf: "match_full ?s = Some (ma, mi, pa, pre, bld)"
    and sv: "prerelease sv = map numberify pre"
    unfolding semver_parse_def trim by (auto split: if_splits option.splits)
  from match_full_digits [OF dg(1,2,4,6) mf] sv show ?thesis by simp
qed

lemma bump_distTag_cases:
  "bump_distTag t v =
     (if truthy_string t then Inr t
      else if v = [] then Inr (Some ''latest'')
      else (case semver_parse v of
              Some sv \<Rightarrow>
                Inr (case prerelease sv of
                       [] \<Rightarrow> Some ''latest''
                     | PNum n # ids \<Rightarrow> None
                     | PStr ident # ids \<Rightarrow> if js_isNaN_string ident then Some ident else None)
            | None \<Rightarrow>
                (case semver_coerce v of
                   Some c \<Rightarrow> Inr (Some ''latest'')
                 | None \<Rightarrow> Inl (TypeError ''Cannot read properties of null (reading prerelease)''))))"
proof (cases "truthy_string t \<or> v = []")
  case True
  then show ?thesis
    by (auto simp: bump_distTag_def parseVersion_def truthy_string_def DEFAULT_TAG_def)
next
  case False
  then have f: "\<not> truthy_string t" "v \<noteq> []" by simp_all
  show ?thesis
  proof (cases "semver_parse v")
    case (Some sv)
    with f show ?thesis
      by (auto simp: bump_distTag_def parseVersion_def truthy_string_def semver_valid_def
            DEFAULT_TAG_def split: list.splits prerelease_id.splits)
  next
    case None
    show ?thesis
    proof (cases "semver_coerce v")
      case n: None
      with None f show ?thesis
        by (simp add: bump_distTag_def parseVersion_def truthy_string_def semver_valid_def)
    next
      case (Some c)
      from semver_coerce_prerelease [OF this] Some None f show ?thesis
        by (simp add: bump_distTag_def parseVersion_def truthy_string_def semver_valid_def
              DEFAULT_TAG_def)
    qed
  qed
qed

text \<open>
  Claim C1, as the code has it.  A non-empty \<open>distTag\<close> option is the tag, whatever the
  version.  Without one (absent or empty): for the empty version the tag is \<open>latest\<close>
  (\<open>parseVersion\<close> returns before \<open>semver\<close> is consulted); for a version that
  \<open>semver.parse\<close> accepts the tag is \<open>latest\<close> when it has no pre-release part, else its
  first pre-release component when \<open>isNaN\<close> holds of it, and \<open>null\<close> otherwise, which is
  the case of a component that is a number for \<open>semver\<close> or a string that JavaScript
  converts to a number (there is no fallback to \<open>latest\<close>); for a non-empty version that
  only \<open>semver.coerce\<close> accepts the tag is \<open>latest\<close>; and for a non-empty version that
  neither accepts \<open>bump\<close> throws.
\<close>

theorem bump_distTag_spec:
  "(truthy_string t \<longrightarrow> bump_distTag t v = Inr t) \<and>
   (\<not> truthy_string t \<longrightarrow> bump_distTag t [] = Inr (Some ''latest'')) \<and>
   (\<not> truthy_string t \<and> semver_parse v = Some sv \<longrightarrow>
      bump_distTag t v =
        Inr (case prerelease sv of
               [] \<Rightarrow> Some ''latest''
             | PNum n # ids \<Rightarrow> None
             | PStr ident # ids \<Rightarrow> if js_isNaN_string ident then Some ident else None)) \<and>
   (\<not> truthy_string t \<and> v \<noteq> [] \<and> semver_parse v = None \<and> semver_coerce v = Some c \<longrightarrow>
      bump_distTag t v = Inr (Some ''latest'')) \<and>
   (\<not> truthy_string t \<and> v \<noteq> [] \<and> semver_parse v = None \<and> semver_coerce v = None \<longrightarrow>
      bump_distTag t v = Inl (TypeError ''Cannot read properties of null (reading prerelease)'')) \<and>
   bump_distTag None ''1.0.0-beta.1'' = Inr (Some ''beta'') \<and>
   bump_distTag None ''1.0.0'' = Inr (Some ''latest'')"
proof -
  have ne: "semver_parse [] = None"
    by (simp add: semver_defs)
  have 1: "truthy_string t \<longrightarrow> bump_distTag t v = Inr t"
    by (simp add: bump_distTag_cases)
  have 2: "\<not> truthy_string t \<longrightarrow> bump_distTag t [] = Inr (Some ''latest'')"
    by (simp add: bump_distTag_cases)
  have 3: "\<not> truthy_string t \<and> semver_parse v = Some sv \<longrightarrow>
      bump_distTag t v =
        Inr (case prerelease sv of
               [] \<Rightarrow> Some ''latest''
             | PNum n # ids \<Rightarrow> None
             | PStr ident # ids \<Rightarrow> if js_isNaN_string ident then Some ident else None)"
    using ne by (auto simp: bump_distTag_cases)
  have 4: "\<not> truthy_string t \<and> v \<noteq> [] \<and> semver_parse v = None \<and> semver_coerce v = Some c \<longrightarrow>
      bump_distTag t v = Inr (Some ''latest'')"
    by (simp add: bump_distTag_cases)
  have 5: "\<not> truthy_string t \<and> v \<noteq> [] \<and> semver_parse v = None \<and> semver_coerce v = None \<longrightarrow>
      bump_distTag t v = Inl (TypeError ''Cannot read properties of null (reading prerelease)'')"
    by (simp add: bump_distTag_cases)
  have p1: "semver_parse ''1.0.0-beta.1'' =
      Some \<lparr> major = 1, minor = 0, patch = 0, prerelease = [PStr ''beta'', PNum 1], build = [] \<rparr>"
    by (simp add: semver_defs char_class_defs Let_def)
  have p2: "semver_parse ''1.0.0'' =
      Some \<lparr> major = 1, minor = 0, patch = 0, prerelease = [], build = [] \<rparr>"
    by (simp add: semver_defs char_class_defs Let_def)
  have nan: "js_isNaN_string ''beta''"
    by (simp add: nan_defs js_trim_def char_class_defs Let_def)
  have 6: "bump_distTag None ''1.0.0-beta.1'' = Inr (Some ''beta'')"
    by (simp add: bump_distTag_cases truthy_string_def p1 nan)
  have 7: "bump_distTag None ''1.0.0'' = Inr (Some ''latest'')"
    by (simp add: bump_distTag_cases truthy_string_def p2)
  from 1 2 3 4 5 6 7 show ?thesis by blast
qed

text \<open>
  The hypotheses hold at the option \<open>next\<close>, at the empty option, and at the versions
  \<open>3.0.0-rc.1\<close>, \<open>1.0.0-0x1f\<close> (a component that JavaScript converts to a number),
  \<open>v1.2\<close> (coerced to \<open>1.2.0\<close>) and \<open>not-a-version\<close> (rejected).
\<close>

theorem bump_distTag_spec_witness:
  "truthy_string (Some ''next'') \<and> bump_distTag (Some ''next'') ''3.0.0-rc.1'' = Inr (Some ''next'') \<and>
   \<not> truthy_string None \<and> \<not> truthy_string (Some []) \<and>
   bump_distTag None [] = Inr (Some ''latest'') \<and>
   bump_distTag (Some []) [] = Inr (Some ''latest'') \<and>
   semver_parse ''3.0.0-rc.1'' =
     Some \<lparr> major = 3, minor = 0, patch = 0, prerelease = [PStr ''rc'', PNum 1], build = [] \<rparr> \<and>
   bump_distTag None ''3.0.0-rc.1'' = Inr (Some ''rc'') \<and>
   semver_parse ''1.0.0-0x1f'' =
     Some \<lparr> major = 1, minor = 0, patch = 0, prerelease = [PStr ''0x1f''], build = [] \<rparr> \<and>
   bump_distTag None ''1.0.0-0x1f'' = Inr None \<and>
   ''v1.2'' \<noteq> [] \<and> semver_parse ''v1.2'' = None \<and>
   semver_coerce ''v1.2'' =
     Some \<lparr> major = 1, minor = 2, patch = 0, prerelease = [], build = [] \<rparr> \<and>
   bump_distTag None ''v1.2'' = Inr (Some ''latest'') \<and>
   ''not-a-version'' \<noteq> [] \<and> semver_parse ''not-a-version'' = None \<and>
   semver_coerce ''not-a-version'' = None \<and>
   bump_distTag None ''not-a-version'' =
     Inl (TypeError ''Cannot read properties of null (reading prerelease)'')"
proof -
  have p: "semver_parse ''3.0.0-rc.1'' =
     Some \<lparr> major = 3, minor = 0, patch = 0, prerelease = [PStr ''rc'', PNum 1], build = [] \<rparr>"
    by (simp add: semver_defs char_class_defs Let_def)
  have h: "semver_parse ''1.0.0-0x1f'' =
     Some \<lparr> major = 1, minor = 0, patch = 0, prerelease = [PStr ''0x1f''], build = [] \<rparr>"
    by (simp add: semver_defs char_class_defs Let_def)
  have c: "semver_parse ''v1.2'' = None"
    "semver_coerce ''v1.2'' =
       Some \<lparr> major = 1, minor = 2, patch = 0, prerelease = [], build = [] \<rparr>"
    by (simp_all add: semver_defs char_class_defs Let_def)
  have q: "semver_parse ''not-a-version'' = None" "semver_coerce ''not-a-version'' = None"
    by (simp_all add: semver_defs char_class_defs Let_def)
  have nan: "js_isNaN_string ''rc''" "\<not> js_isNaN_string ''0x1f''"
    by (simp_all add: nan_defs js_trim_def char_class_defs Let_def)
  have t: "truthy_string (Some ''next'')" "\<not> truthy_string None" "\<not> truthy_string (Some [])"
    by (simp_all add: truthy_string_def)
  show ?thesis
    using bump_distTag_spec [where t = "Some ''next''" and v = "''3.0.0-rc.1''"]
      bump_distTag_spec [where t = "Some []"]
      bump_distTag_spec [where t = None and v = "''3.0.0-rc.1''"
        and sv = "\<lparr> major = 3, minor = 0, patch = 0, prerelease = [PStr ''rc'', PNum 1],
                   build = [] \<rparr>"]
      bump_distTag_spec [where t = None and v = "''1.0.0-0x1f''"
        and sv = "\<lparr> major = 1, minor = 0, patch = 0, prerelease = [PStr ''0x1f''],
                   build = [] \<rparr>"]
      bump_distTag_spec [where t = None and v = "''v1.2''"
        and c = "\<lparr> major = 1, minor = 2, patch = 0, prerelease = [], build = [] \<rparr>"]
      bump_distTag_spec [where t = None and v = "''not-a-version''"]
      p h c q nan t
    by simp
qed

text \<open>
  For the pre-release \<open>1.0.0-2\<close>, whose only pre-release component is numeric, the tag
  is \<open>null\<close>, not \<open>latest\<close>.  For the version \<open>not-a-version\<close>, which neither
  \<open>semver.valid\<close> nor \<open>semver.coerce\<close> accepts, no tag is resolved: \<open>bump\<close> throws.
\<close>

theorem bump_distTag_numeric_prerelease:
  "bump_distTag None ''1.0.0-2'' = Inr None \<and>
   bump_distTag None ''1.0.0-2'' \<noteq> Inr (Some ''latest'') \<and>
   bump_distTag None ''not-a-version'' =
     Inl (TypeError ''Cannot read properties of null (reading prerelease)'')"
proof -
  have p: "semver_parse ''1.0.0-2'' =
     Some \<lparr> major = 1, minor = 0, patch = 0, prerelease = [PNum 2], build = [] \<rparr>"
    by (simp add: semver_defs char_class_defs Let_def)
  have q: "semver_parse ''not-a-version'' = None" "semver_coerce ''not-a-version'' = None"
    by (simp_all add: semver_defs char_class_defs Let_def)
  show ?thesis
    by (simp add: bump_distTag_def parseVersion_def truthy_string_def semver_valid_def p q)
qed

section \<open>Iterating over the workspaces\<close>

lemma eachWorkspace_action_cwd:
  "eachWorkspace e r action wss w =
   eachWorkspace e r (\<lambda>ws s. action ws (s\<lparr> cwd := root ws \<rparr>)) wss w"
proof (induction wss arbitrary: w)
  case Nil
  show ?case by simp
next
  case (Cons ws rest)
  show ?case
    by (auto simp: chdir_def Cons.IH split: sum.splits option.splits)
qed

lemma eachWorkspace_restores:
  "directory_exists e r \<Longrightarrow> eachWorkspace e r action wss w = Some (res, wss', w') \<Longrightarrow>
   cwd w = r \<or> wss \<noteq> [] \<Longrightarrow> cwd w' = r"
proof (induction wss arbitrary: w res wss' w')
  case Nil
  then show ?case by simp
next
  case (Cons ws rest)
  from Cons.prems(1,2) show ?case
    by (auto simp: chdir_def split: sum.splits option.splits if_splits
          dest!: Cons.IH [OF Cons.prems(1)])
qed

lemma eachWorkspace_returns:
  "(\<forall>ws s. action ws s \<noteq> None) \<Longrightarrow> eachWorkspace e r action wss w \<noteq> None"
proof (induction wss arbitrary: w)
  case Nil
  show ?case by simp
next
  case (Cons ws rest)
  obtain res ws' w2 where act: "action ws (w\<lparr> cwd := root ws \<rparr>) = Some (res, ws', w2)"
    using Cons.prems by (metis not_None_eq prod_cases3)
  obtain res' rest' w4 where
    rec: "eachWorkspace e r action rest (w2\<lparr> cwd := r \<rparr>) = Some (res', rest', w4)"
    using Cons.IH [OF Cons.prems] by (metis not_None_eq prod_cases3)
  show ?case
    by (simp add: chdir_def act rec split: sum.splits)
qed

text \<open>
  Claim C9.  The action of every workspace runs with the workspace root as working
  directory: \<open>eachWorkspace\<close> is unchanged when the action is made to see that directory.
  When the action throws, the exception propagates from \<open>eachWorkspace\<close> with the
  working directory back at the run root (and the remaining workspaces are not visited);
  when it returns, the loop goes on from the run root.  Whenever \<open>eachWorkspace\<close>
  returns or throws after visiting a workspace, the working directory is the run root.
  It does return or throw when the action does.  The directories are assumed to exist,
  so that \<open>process.chdir\<close> itself does not throw.
\<close>

theorem eachWorkspace_working_directory:
  "eachWorkspace e r action wss w =
     eachWorkspace e r (\<lambda>ws s. action ws (s\<lparr> cwd := root ws \<rparr>)) wss w \<and>
   (directory_exists e r \<and> directory_exists e (root ws) \<and>
    action ws (w\<lparr> cwd := root ws \<rparr>) = Some (Inl err, ws', w2)
      \<longrightarrow> eachWorkspace e r action (ws # rest) w = Some (Inl err, ws' # rest, w2\<lparr> cwd := r \<rparr>)) \<and>
   (directory_exists e r \<and> directory_exists e (root ws) \<and>
    action ws (w\<lparr> cwd := root ws \<rparr>) = Some (Inr (), ws'', w2')
      \<longrightarrow> eachWorkspace e r action (ws # rest) w =
            map_option (\<lambda>(res, rest', w4). (res, ws'' # rest', w4))
              (eachWorkspace e r action rest (w2'\<lparr> cwd := r \<rparr>))) \<and>
   (directory_exists e r \<and> wss \<noteq> [] \<and> eachWorkspace e r action wss w = Some (res, wss', w')
      \<longrightarrow> cwd w' = r) \<and>
   ((\<forall>x s. action x s \<noteq> None) \<longrightarrow> eachWorkspace e r action wss w \<noteq> None)"
proof -
  have 1: "eachWorkspace e r action wss w =
     eachWorkspace e r (\<lambda>ws s. action ws (s\<lparr> cwd := root ws \<rparr>)) wss w"
    by (rule eachWorkspace_action_cwd)
  have 2: "directory_exists e r \<and> directory_exists e (root ws) \<and>
    action ws (w\<lparr> cwd := root ws \<rparr>) = Some (Inl err, ws', w2)
      \<longrightarrow> eachWorkspace e r action (ws # rest) w = Some (Inl err, ws' # rest, w2\<lparr> cwd := r \<rparr>)"
    by (simp add: chdir_def)
  have 3: "directory_exists e r \<and> directory_exists e (root ws) \<and>
    action ws (w\<lparr> cwd := root ws \<rparr>) = Some (Inr (), ws'', w2')
      \<longrightarrow> eachWorkspace e r action (ws # rest) w =
            map_option (\<lambda>(res, rest', w4). (res, ws'' # rest', w4))
              (eachWorkspace e r action rest (w2'\<lparr> cwd := r \<rparr>))"
    by (auto simp: chdir_def split: option.splits)
  have 4: "directory_exists e r \<and> wss \<noteq> [] \<and> eachWorkspace e r action wss w = Some (res, wss', w')
      \<longrightarrow> cwd w' = r"
    using eachWorkspace_restores [of e r action wss w res wss' w'] by blast
  have 5: "(\<forall>x s. action x s \<noteq> None) \<longrightarrow> eachWorkspace e r action wss w \<noteq> None"
    using eachWorkspace_returns [of action e r wss w] by blast
  from 1 2 3 4 5 show ?thesis by blast
qed

text \<open>
  The hypotheses hold for an action that moves the process elsewhere and throws at the
  second of three workspaces.
\<close>

theorem eachWorkspace_working_directory_witness:
  "directory_exists (sample_env None) ''/repo'' \<and>
   directory_exists (sample_env None) (root (sample_workspace ''b'')) \<and>
   directory_exists (sample_env None) (root (sample_workspace ''a'')) \<and>
   sample_action (sample_workspace ''b'') (sample_world\<lparr> cwd := root (sample_workspace ''b'') \<rparr>)
     = Some (Inl (Error ''failed''), sample_workspace ''b'',
             sample_world\<lparr> cwd := ''/tmp'', log := [Log ''/repo/packages/b''] \<rparr>) \<and>
   eachWorkspace (sample_env None) ''/repo'' sample_action
       [sample_workspace ''b'', sample_workspace ''c''] sample_world
     = Some (Inl (Error ''failed''), [sample_workspace ''b'', sample_workspace ''c''],
             sample_world\<lparr> cwd := ''/repo'', log := [Log ''/repo/packages/b''] \<rparr>) \<and>
   sample_action (sample_workspace ''a'') (sample_world\<lparr> cwd := root (sample_workspace ''a'') \<rparr>)
     = Some (Inr (), sample_workspace ''a'',
             sample_world\<lparr> cwd := ''/tmp'', log := [Log ''/repo/packages/a''] \<rparr>) \<and>
   eachWorkspace (sample_env None) ''/repo'' sample_action
       [sample_workspace ''a'', sample_workspace ''b'', sample_workspace ''c''] sample_world
     = Some (Inl (Error ''failed''),
             [sample_workspace ''a'', sample_workspace ''b'', sample_workspace ''c''],
             sample_world\<lparr> cwd := ''/repo'',
                                log := [Log ''/repo/packages/a'', Log ''/repo/packages/b''] \<rparr>) \<and>
   (\<forall>x s. sample_action x s \<noteq> None) \<and>
   eachWorkspace (sample_env None) ''/repo'' sample_action
       [sample_workspace ''a'', sample_workspace ''b'', sample_workspace ''c''] sample_world \<noteq> None"
proof -
  let ?e = "sample_env None"
  let ?a = "sample_workspace ''a''" and ?b = "sample_workspace ''b''" and ?c = "sample_workspace ''c''"
  have dirs: "directory_exists ?e d" for d
    by (simp add: sample_env_def)
  have b: "sample_action ?b (sample_world\<lparr> cwd := root ?b \<rparr>)
     = Some (Inl (Error ''failed''), ?b,
             sample_world\<lparr> cwd := ''/tmp'', log := [Log ''/repo/packages/b''] \<rparr>)"
    by (simp add: sample_action_def sample_workspace_def sample_package_def sample_world_def)
  have a: "sample_action ?a (sample_world\<lparr> cwd := root ?a \<rparr>)
     = Some (Inr (), ?a, sample_world\<lparr> cwd := ''/tmp'', log := [Log ''/repo/packages/a''] \<rparr>)"
    by (simp add: sample_action_def sample_workspace_def sample_package_def sample_world_def)
  have total: "\<forall>x s. sample_action x s \<noteq> None"
    by (simp add: sample_action_def)
  have bc: "eachWorkspace ?e ''/repo'' sample_action [?b, ?c] sample_world
     = Some (Inl (Error ''failed''), [?b, ?c],
             sample_world\<lparr> cwd := ''/repo'', log := [Log ''/repo/packages/b''] \<rparr>)"
    by (simp add: chdir_def sample_env_def sample_action_def sample_workspace_def sample_package_def sample_world_def)
  have abc: "eachWorkspace ?e ''/repo'' sample_action [?a, ?b, ?c] sample_world
     = Some (Inl (Error ''failed''), [?a, ?b, ?c],
             sample_world\<lparr> cwd := ''/repo'',
                                log := [Log ''/repo/packages/a'', Log ''/repo/packages/b''] \<rparr>)"
    by (simp add: chdir_def sample_env_def sample_action_def sample_workspace_def sample_package_def sample_world_def)
  have "eachWorkspace ?e ''/repo'' sample_action [?a, ?b, ?c] sample_world \<noteq> None"
    using eachWorkspace_working_directory
      [where e = ?e and r = "''/repo''" and action = sample_action
         and wss = "[?a, ?b, ?c]" and w = sample_world] total
    by blast
  then show ?thesis
    using dirs a b total abc bc by (simp del: eachWorkspace.simps)
qed

section \<open>Publishing a scoped workspace without access\<close>

lemma publish_declined:
  assumes "name ws = Some (JString nm)" "is_prefix ''@'' nm" "\<not> isPrivate ws"
    and "npm e (length (executed w)) (cwd w) (publish_command e tg access w) = Some err"
    and "\<not> contains ''one-time pass'' (error_text err)"
    and "contains ''private packages'' (error_text err)"
    and "\<not> public_answer e (prompts w)"
  shows "publish e tg access ws w =
     Some (Inl err, ws,
           log_warn (nm @ '' was not published.'')
             (debug (error_text err)
                (w\<lparr> executed := executed w @ [(cwd w, publish_command e tg access w)] \<rparr>)
              \<lparr> prompts := Suc (prompts w) \<rparr>))"
  using assms
  by (subst publish.simps) (simp add: exec_def debug_def log_warn_def)

text \<open>
  Claim C2, as the code has it.  For a scoped workspace that is not private, when the
  publish command fails with an error that matches \<open>private packages\<close> and not
  \<open>one-time pass\<close>, and the answer to the prompt is no, \<open>publish\<close> logs the warning
  that the package was not published and then throws the error of the command.  Run by
  \<open>eachWorkspace\<close>, the error propagates after the working directory is restored, and
  the workspaces after this one are not visited.
\<close>

theorem publish_access_declined:
  "(name ws = Some (JString nm) \<and> is_prefix ''@'' nm \<and> \<not> isPrivate ws \<and>
    npm e (length (executed w)) (cwd w) (publish_command e tg access w) = Some err \<and>
    \<not> contains ''one-time pass'' (error_text err) \<and>
    contains ''private packages'' (error_text err) \<and>
    \<not> public_answer e (prompts w)
    \<longrightarrow> publish e tg access ws w =
          Some (Inl err, ws,
                log_warn (nm @ '' was not published.'')
                  (debug (error_text err)
                     (w\<lparr> executed := executed w @ [(cwd w, publish_command e tg access w)] \<rparr>)
                   \<lparr> prompts := Suc (prompts w) \<rparr>))) \<and>
   (directory_exists e r \<and> directory_exists e (root ws) \<and>
    publish e tg access ws (w\<lparr> cwd := root ws \<rparr>) = Some (Inl err, ws', w')
    \<longrightarrow> eachWorkspace e r (publish e tg access) (ws # rest) w =
          Some (Inl err, ws' # rest, w'\<lparr> cwd := r \<rparr>))"
proof -
  have 1: "name ws = Some (JString nm) \<and> is_prefix ''@'' nm \<and> \<not> isPrivate ws \<and>
    npm e (length (executed w)) (cwd w) (publish_command e tg access w) = Some err \<and>
    \<not> contains ''one-time pass'' (error_text err) \<and>
    contains ''private packages'' (error_text err) \<and>
    \<not> public_answer e (prompts w)
    \<longrightarrow> publish e tg access ws w =
          Some (Inl err, ws,
                log_warn (nm @ '' was not published.'')
                  (debug (error_text err)
                     (w\<lparr> executed := executed w @ [(cwd w, publish_command e tg access w)] \<rparr>)
                   \<lparr> prompts := Suc (prompts w) \<rparr>))"
    using publish_declined [of ws nm e w tg access err] by blast
  have 2: "directory_exists e r \<and> directory_exists e (root ws) \<and>
    publish e tg access ws (w\<lparr> cwd := root ws \<rparr>) = Some (Inl err, ws', w')
    \<longrightarrow> eachWorkspace e r (publish e tg access) (ws # rest) w =
          Some (Inl err, ws' # rest, w'\<lparr> cwd := r \<rparr>)"
    by (simp add: chdir_def)
  from 1 2 show ?thesis by blast
qed

text \<open>
  The promise is rejected: with the answer no, \<open>publish\<close> of \<open>@scope/a\<close> ends with the
  error of the command, and the release of the two workspaces \<open>@scope/a\<close> and \<open>b\<close> ends
  with that error after one command (nothing is run for \<open>b\<close>).
\<close>

theorem publish_access_declined_throws:
  "publish (sample_env (Some private_packages_error)) (Some ''latest'') None
      (sample_workspace ''@scope/a'') sample_world
   = Some (Inl private_packages_error, sample_workspace ''@scope/a'',
           sample_world\<lparr>
             log := [Debug (error_text private_packages_error),
                     Warn ''@scope/a was not published.''],
             executed := [(''/repo'', ''npm publish . --tag latest'')],
             prompts := 1 \<rparr>) \<and>
   eachWorkspace (sample_env (Some private_packages_error)) ''/repo''
      (publish (sample_env (Some private_packages_error)) (Some ''latest'') None)
      [sample_workspace ''@scope/a'', sample_workspace ''b''] sample_world
   = Some (Inl private_packages_error, [sample_workspace ''@scope/a'', sample_workspace ''b''],
           sample_world\<lparr>
             log := [Debug (error_text private_packages_error),
                     Warn ''@scope/a was not published.''],
             executed := [(''/repo/packages/@scope/a'', ''npm publish . --tag latest'')],
             prompts := 1 \<rparr>)"
proof -
  let ?e = "sample_env (Some private_packages_error)"
  have c: "\<not> contains ''one-time pass'' (error_text private_packages_error)"
          "contains ''private packages'' (error_text private_packages_error)"
    by (simp_all add: private_packages_error_def error_text_def)
  have p: "publish ?e (Some ''latest'') None (sample_workspace ''@scope/a'') (sample_world\<lparr> cwd := d \<rparr>)
     = Some (Inl private_packages_error, sample_workspace ''@scope/a'',
           sample_world\<lparr>
             cwd := d,
             log := [Debug (error_text private_packages_error),
                     Warn ''@scope/a was not published.''],
             executed := [(d, ''npm publish . --tag latest'')],
             prompts := 1 \<rparr>)" for d
    by (subst publish.simps)
       (simp add: c exec_def debug_def log_warn_def publish_command_def sample_env_def
          sample_workspace_def sample_package_def sample_world_def truthy_string_def show_option_def)
  have 1: "publish ?e (Some ''latest'') None (sample_workspace ''@scope/a'') sample_world
     = Some (Inl private_packages_error, sample_workspace ''@scope/a'',
           sample_world\<lparr>
             log := [Debug (error_text private_packages_error),
                     Warn ''@scope/a was not published.''],
             executed := [(''/repo'', ''npm publish . --tag latest'')],
             prompts := 1 \<rparr>)"
    using p [of "''/repo''"] by (simp add: sample_world_def)
  have r: "root (sample_workspace ''@scope/a'') = ''/repo/packages/@scope/a''"
    by (simp add: sample_workspace_def sample_package_def)
  have 2: "eachWorkspace ?e ''/repo'' (publish ?e (Some ''latest'') None)
      [sample_workspace ''@scope/a'', sample_workspace ''b''] sample_world
   = Some (Inl private_packages_error, [sample_workspace ''@scope/a'', sample_workspace ''b''],
           sample_world\<lparr>
             log := [Debug (error_text private_packages_error),
                     Warn ''@scope/a was not published.''],
             executed := [(''/repo/packages/@scope/a'', ''npm publish . --tag latest'')],
             prompts := 1 \<rparr>)"
    using p [of "''/repo/packages/@scope/a''"]
    by (simp add: chdir_def r) (simp add: sample_env_def sample_world_def)
  from 1 2 show ?thesis by blast
qed

text \<open>The hypotheses hold for the workspace \<open>@acme/ui\<close> and the tag \<open>beta\<close>.\<close>

theorem publish_access_declined_witness:
  "name (sample_workspace ''@acme/ui'') = Some (JString ''@acme/ui'') \<and>
   is_prefix ''@'' ''@acme/ui'' \<and> \<not> isPrivate (sample_workspace ''@acme/ui'') \<and>
   npm (sample_env (Some private_packages_error)) (length (executed sample_world))
       (cwd sample_world)
       (publish_command (sample_env (Some private_packages_error)) (Some ''beta'') None sample_world)
     = Some private_packages_error \<and>
   \<not> contains ''one-time pass'' (error_text private_packages_error) \<and>
   contains ''private packages'' (error_text private_packages_error) \<and>
   \<not> public_answer (sample_env (Some private_packages_error)) (prompts sample_world) \<and>
   publish (sample_env (Some private_packages_error)) (Some ''beta'') None
       (sample_workspace ''@acme/ui'') sample_world
     = Some (Inl private_packages_error, sample_workspace ''@acme/ui'',
             sample_world\<lparr>
               log := [Debug (error_text private_packages_error),
                       Warn ''@acme/ui was not published.''],
               executed := [(''/repo'', ''npm publish . --tag beta'')],
               prompts := 1 \<rparr>) \<and>
   directory_exists (sample_env (Some private_packages_error)) ''/repo'' \<and>
   directory_exists (sample_env (Some private_packages_error)) (root (sample_workspace ''@acme/ui'')) \<and>
   eachWorkspace (sample_env (Some private_packages_error)) ''/repo''
       (publish (sample_env (Some private_packages_error)) (Some ''beta'') None)
       [sample_workspace ''@acme/ui'', sample_workspace ''b''] sample_world
     = Some (Inl private_packages_error, [sample_workspace ''@acme/ui'', sample_workspace ''b''],
             sample_world\<lparr>
               log := [Debug (error_text private_packages_error),
                       Warn ''@acme/ui was not published.''],
               executed := [(''/repo/packages/@acme/ui'', ''npm publish . --tag beta'')],
               prompts := 1 \<rparr>)"
proof -
  let ?e = "sample_env (Some private_packages_error)"
  let ?ws = "sample_workspace ''@acme/ui''"
  let ?w = "sample_world\<lparr> cwd := root ?ws \<rparr>"
  have c: "\<not> contains ''one-time pass'' (error_text private_packages_error)"
          "contains ''private packages'' (error_text private_packages_error)"
    by (simp_all add: private_packages_error_def error_text_def)
  have h: "name ?ws = Some (JString ''@acme/ui'')" "is_prefix ''@'' ''@acme/ui''"
    "\<not> isPrivate ?ws" "npm ?e n d cmd = Some private_packages_error"
    "\<not> public_answer ?e k" "directory_exists ?e d"
    "root ?ws = ''/repo/packages/@acme/ui''" for n d cmd k
    by (simp_all add: sample_workspace_def sample_package_def sample_env_def)
  have cmd: "publish_command ?e (Some ''beta'') None w = ''npm publish . --tag beta''"
    if "otp w = None" for w
    using that by (simp add: publish_command_def truthy_string_def show_option_def sample_env_def)
  have 1: "publish ?e (Some ''beta'') None ?ws sample_world
     = Some (Inl private_packages_error, ?ws,
             sample_world\<lparr>
               log := [Debug (error_text private_packages_error),
                       Warn ''@acme/ui was not published.''],
               executed := [(''/repo'', ''npm publish . --tag beta'')],
               prompts := 1 \<rparr>)"
    using publish_access_declined
      [where ws = ?ws and nm = "''@acme/ui''" and e = ?e and w = sample_world
         and tg = "Some ''beta''" and access = None and err = private_packages_error]
      h c cmd [of sample_world]
    by (simp add: sample_world_def debug_def log_warn_def)
  have 2: "publish ?e (Some ''beta'') None ?ws ?w
     = Some (Inl private_packages_error, ?ws,
             sample_world\<lparr>
               cwd := ''/repo/packages/@acme/ui'',
               log := [Debug (error_text private_packages_error),
                       Warn ''@acme/ui was not published.''],
               executed := [(''/repo/packages/@acme/ui'', ''npm publish . --tag beta'')],
               prompts := 1 \<rparr>)"
    using publish_access_declined
      [where ws = ?ws and nm = "''@acme/ui''" and e = ?e and w = ?w
         and tg = "Some ''beta''" and access = None and err = private_packages_error]
      h c cmd [of ?w]
    by (simp add: sample_world_def debug_def log_warn_def)
  have 3: "eachWorkspace ?e ''/repo'' (publish ?e (Some ''beta'') None)
       [?ws, sample_workspace ''b''] sample_world
     = Some (Inl private_packages_error, [?ws, sample_workspace ''b''],
             sample_world\<lparr>
               log := [Debug (error_text private_packages_error),
                       Warn ''@acme/ui was not published.''],
               executed := [(''/repo/packages/@acme/ui'', ''npm publish . --tag beta'')],
               prompts := 1 \<rparr>)"
    using publish_access_declined
      [where ws = ?ws and e = ?e and w = sample_world and r = "''/repo''"
         and tg = "Some ''beta''" and access = None and err = private_packages_error
         and rest = "[sample_workspace ''b'']", THEN conjunct2] h(6) 2
    by (simp add: sample_world_def del: eachWorkspace.simps)
  show ?thesis
    using 1 3 h c cmd [of sample_world]
    by (simp add: sample_world_def del: eachWorkspace.simps)
qed

section \<open>Bumping\<close>

lemmas bump_defs = bump_def bump_workspace_def set_version_def dependency_fields_def
  update_dependency_field_def updateDependencies_def rewrite_dependency_def truthy_def
  get_prop_def log_warn_def

lemma semver_parse_caret_1_0_0: "semver_parse ''^1.0.0'' = None"
  by (simp add: semver_defs char_class_defs Let_def)

lemma rewrite_caret_1_0_0:
  "buildReplacementDepencencyVersion ''^1.0.0'' ''2.0.0'' = ''^2.0.0''"
  by (simp add: buildReplacementDepencencyVersion_def semver_defs char_class_defs
        js_replace_def show_nat.simps Let_def)

lemma bump_distTag_2_0_0: "bump_distTag None ''2.0.0'' = Inr (Some ''latest'')"
proof -
  have p: "semver_parse ''2.0.0'' =
     Some \<lparr> major = 2, minor = 0, patch = 0, prerelease = [], build = [] \<rparr>"
    by (simp add: semver_defs char_class_defs Let_def)
  show ?thesis
    by (simp add: bump_distTag_def parseVersion_def truthy_string_def semver_valid_def p
          DEFAULT_TAG_def)
qed

text \<open>
  Claim C4.  Two discovered workspaces \<open>a\<close> and \<open>b\<close> at version \<open>1.0.0\<close>, \<open>b\<close> depending
  on \<open>a\<close> at \<open>^1.0.0\<close>.  Outside a dry run, whatever the rest of the environment and the
  world, \<open>bump\<close> to \<open>2.0.0\<close> raises no exception, leaves both manifests at version
  \<open>2.0.0\<close> and the dependency at \<open>^2.0.0\<close>, and writes both manifests with \<open>write\<close>: the
  two files hold the texts shown.
\<close>

theorem bump_two_workspaces:
  "bump (e\<lparr> isDryRun := False \<rparr>) None ''2.0.0''
     [sample_package ''a'' ''1.0.0'' [],
      sample_package ''b'' ''1.0.0'' [(''a'', JString ''^1.0.0'')]] w
   = (None,
      Some \<lparr> ctx_distTag = Some ''latest'', ctx_version = ''2.0.0'',
             ctx_packageNames = [Some (JString ''a''), Some (JString ''b'')] \<rparr>,
      [sample_package ''a'' ''2.0.0'' [],
       sample_package ''b'' ''2.0.0'' [(''a'', JString ''^2.0.0'')]],
      JSONFile_write (pkgInfo (sample_package ''b'' ''2.0.0'' [(''a'', JString ''^2.0.0'')]))
        (JSONFile_write (pkgInfo (sample_package ''a'' ''2.0.0'' [])) w)) \<and>
   get_prop (pkg (pkgInfo (sample_package ''a'' ''2.0.0'' []))) ''version''
     = Some (JString ''2.0.0'') \<and>
   get_prop (pkg (pkgInfo (sample_package ''b'' ''2.0.0'' [(''a'', JString ''^2.0.0'')]))) ''version''
     = Some (JString ''2.0.0'') \<and>
   get_prop (pkg (pkgInfo (sample_package ''b'' ''2.0.0'' [(''a'', JString ''^2.0.0'')])))
       ''dependencies''
     = Some (JObject [(''a'', JString ''^2.0.0'')]) \<and>
   files (JSONFile_write (pkgInfo (sample_package ''b'' ''2.0.0'' [(''a'', JString ''^2.0.0'')]))
           (JSONFile_write (pkgInfo (sample_package ''a'' ''2.0.0'' [])) w))
       ''/repo/packages/a/package.json''
     = Some (''{'' @ [LF] @
             ''  '' @ [DQ] @ ''name'' @ [DQ] @ '': '' @ [DQ] @ ''a'' @ [DQ] @ '','' @ [LF] @
             ''  '' @ [DQ] @ ''version'' @ [DQ] @ '': '' @ [DQ] @ ''2.0.0'' @ [DQ] @ [LF] @
             ''}'' @ [LF]) \<and>
   files (JSONFile_write (pkgInfo (sample_package ''b'' ''2.0.0'' [(''a'', JString ''^2.0.0'')]))
           (JSONFile_write (pkgInfo (sample_package ''a'' ''2.0.0'' [])) w))
       ''/repo/packages/b/package.json''
     = Some (''{'' @ [LF] @
             ''  '' @ [DQ] @ ''name'' @ [DQ] @ '': '' @ [DQ] @ ''b'' @ [DQ] @ '','' @ [LF] @
             ''  '' @ [DQ] @ ''version'' @ [DQ] @ '': '' @ [DQ] @ ''2.0.0'' @ [DQ] @ '','' @ [LF] @
             ''  '' @ [DQ] @ ''dependencies'' @ [DQ] @ '': {'' @ [LF] @
             ''    '' @ [DQ] @ ''a'' @ [DQ] @ '': '' @ [DQ] @ ''^2.0.0'' @ [DQ] @ [LF] @
             ''  }'' @ [LF] @
             ''}'' @ [LF])"
proof -
  have 1: "bump (e\<lparr> isDryRun := False \<rparr>) None ''2.0.0''
     [sample_package ''a'' ''1.0.0'' [],
      sample_package ''b'' ''1.0.0'' [(''a'', JString ''^1.0.0'')]] w
   = (None,
      Some \<lparr> ctx_distTag = Some ''latest'', ctx_version = ''2.0.0'',
             ctx_packageNames = [Some (JString ''a''), Some (JString ''b'')] \<rparr>,
      [sample_package ''a'' ''2.0.0'' [],
       sample_package ''b'' ''2.0.0'' [(''a'', JString ''^2.0.0'')]],
      JSONFile_write (pkgInfo (sample_package ''b'' ''2.0.0'' [(''a'', JString ''^2.0.0'')]))
        (JSONFile_write (pkgInfo (sample_package ''a'' ''2.0.0'' [])) w))"
    by (simp add: bump_defs bump_distTag_2_0_0 sample_package_def semver_parse_caret_1_0_0
          rewrite_caret_1_0_0)
  have 2: "write_contents (pkgInfo (sample_package ''a'' ''2.0.0'' [])) =
      ''{'' @ [LF] @
             ''  '' @ [DQ] @ ''name'' @ [DQ] @ '': '' @ [DQ] @ ''a'' @ [DQ] @ '','' @ [LF] @
             ''  '' @ [DQ] @ ''version'' @ [DQ] @ '': '' @ [DQ] @ ''2.0.0'' @ [DQ] @ [LF] @
             ''}'' @ [LF]"
    by (simp add: write_contents_def JSON_stringify_def replace_newlines_def sample_package_def
          json_quote_def quote_char_def eval_nat_numeral)
  have 3: "write_contents (pkgInfo (sample_package ''b'' ''2.0.0'' [(''a'', JString ''^2.0.0'')])) =
      ''{'' @ [LF] @
             ''  '' @ [DQ] @ ''name'' @ [DQ] @ '': '' @ [DQ] @ ''b'' @ [DQ] @ '','' @ [LF] @
             ''  '' @ [DQ] @ ''version'' @ [DQ] @ '': '' @ [DQ] @ ''2.0.0'' @ [DQ] @ '','' @ [LF] @
             ''  '' @ [DQ] @ ''dependencies'' @ [DQ] @ '': {'' @ [LF] @
             ''    '' @ [DQ] @ ''a'' @ [DQ] @ '': '' @ [DQ] @ ''^2.0.0'' @ [DQ] @ [LF] @
             ''  }'' @ [LF] @
             ''}'' @ [LF]"
    by (simp add: write_contents_def JSON_stringify_def replace_newlines_def sample_package_def
          json_quote_def quote_char_def eval_nat_numeral)
  have 4: "filename (pkgInfo (sample_package nm ver deps)) = ''/repo/packages/'' @ nm @ ''/package.json''"
    for nm ver deps
    by (simp add: sample_package_def)
  show ?thesis
    unfolding 1 by (simp add: JSONFile_write_def 2 3 4) (simp add: sample_package_def get_prop_def)
qed

subsection \<open>A workspace that is already at the target version\<close>

lemma set_field_same: "map_of props k = Some x \<Longrightarrow> set_field k x props = props"
  by (induction props) (auto split: if_splits)

lemma map_of_set_field:
  "map_of (set_field f d props) k = (if k = f then Some d else map_of props k)"
  by (induction props) auto

lemma update_props_lookup:
  "update_props wss v deps = (None, deps') \<Longrightarrow>
   map_of deps' k =
     (if Some (JString k) \<in> set (map name wss)
      then (case map_of deps k of
              None \<Rightarrow> None
            | Some x \<Rightarrow> (case rewrite_dependency x v of Inl err \<Rightarrow> None | Inr y \<Rightarrow> Some y))
      else map_of deps k)"
proof (induction deps arbitrary: deps')
  case Nil
  then show ?case by simp
next
  case (Cons kv deps)
  obtain k' x where kv: "kv = (k', x)" by (cases kv)
  obtain r rest where rec: "update_props wss v deps = (r, rest)" by (cases "update_props wss v deps")
  from Cons.prems have r: "r = None"
    unfolding kv by (auto simp: rec split: if_splits sum.splits)
  note ih = Cons.IH [OF rec [unfolded r]]
  from Cons.prems show ?case
    unfolding kv using ih by (auto simp: rec r split: if_splits sum.splits)
qed

lemma update_dependency_field_object:
  "update_dependency_field wss v f (JObject props) = (r, m) \<Longrightarrow>
   \<exists>props'. m = JObject props' \<and> (\<forall>k. k \<noteq> f \<longrightarrow> map_of props' k = map_of props k) \<and>
     (r = None \<longrightarrow> fst (updateDependencies wss (map_of props f) v) = None \<and>
                   map_of props' f = snd (updateDependencies wss (map_of props f) v))"
proof -
  assume a: "update_dependency_field wss v f (JObject props) = (r, m)"
  obtain r' d where u: "updateDependencies wss (map_of props f) v = (r', d)"
    by (cases "updateDependencies wss (map_of props f) v")
  show ?thesis
  proof (cases d)
    case None
    have "map_of props f = None"
      using u None
      by (auto simp: updateDependencies_def split: if_splits json.splits prod.splits)
    with a u None show ?thesis by (auto simp: update_dependency_field_def)
  next
    case (Some d')
    with a u show ?thesis
      by (auto simp: update_dependency_field_def map_of_set_field)
  qed
qed

lemma update_dependency_fields_lookup:
  "update_dependency_fields wss v fs (JObject props) = (None, m) \<Longrightarrow> distinct fs \<Longrightarrow>
   \<exists>props'. m = JObject props' \<and>
     (\<forall>k. k \<notin> set fs \<longrightarrow> map_of props' k = map_of props k) \<and>
     (\<forall>f \<in> set fs. fst (updateDependencies wss (map_of props f) v) = None \<and>
                     map_of props' f = snd (updateDependencies wss (map_of props f) v))"
proof (induction fs arbitrary: props)
  case Nil
  then show ?case by auto
next
  case (Cons f fs)
  obtain r m1 where s: "update_dependency_field wss v f (JObject props) = (r, m1)"
    by (cases "update_dependency_field wss v f (JObject props)")
  from Cons.prems(1) have r: "r = None" and rest: "update_dependency_fields wss v fs m1 = (None, m)"
    by (auto simp: s split: option.splits)
  from update_dependency_field_object [OF s] r obtain props1 where
    m1: "m1 = JObject props1" and
    other: "\<And>k. k \<noteq> f \<Longrightarrow> map_of props1 k = map_of props k" and
    this_f: "fst (updateDependencies wss (map_of props f) v) = None"
            "map_of props1 f = snd (updateDependencies wss (map_of props f) v)"
    by auto
  from Cons.prems(2) have d: "distinct fs" and nf: "f \<notin> set fs" by auto
  from Cons.IH [OF rest [unfolded m1] d] obtain props' where
    m: "m = JObject props'" and
    keep: "\<And>k. k \<notin> set fs \<Longrightarrow> map_of props' k = map_of props1 k" and
    upd: "\<And>g. g \<in> set fs \<Longrightarrow> fst (updateDependencies wss (map_of props1 g) v) = None \<and>
                     map_of props' g = snd (updateDependencies wss (map_of props1 g) v)"
    by auto
  have "map_of props' k = map_of props k" if "k \<notin> set (f # fs)" for k
    using that keep [of k] other [of k] by auto
  moreover have "fst (updateDependencies wss (map_of props g) v) = None \<and>
                 map_of props' g = snd (updateDependencies wss (map_of props g) v)"
    if "g \<in> set (f # fs)" for g
  proof (cases "g = f")
    case True
    then show ?thesis using this_f keep [of f] nf by simp
  next
    case False
    with that have "g \<in> set fs" by simp
    from upd [OF this] other [OF False] show ?thesis by simp
  qed
  ultimately show ?case using m by blast
qed

lemma bump_workspace_same_version:
  assumes "pkg (pkgInfo ws) = JObject props" "map_of props ''version'' = Some (JString v)"
    and "update_dependency_fields wss v dependency_fields (JObject props) = (None, m)"
  shows "bump_workspace wss v ws w =
           (None, ws\<lparr> pkgInfo := (pkgInfo ws)\<lparr> pkg := m \<rparr> \<rparr>,
            JSONFile_write ((pkgInfo ws)\<lparr> pkg := m \<rparr>)
              (log_warn (''Did not update version in package.json, etc. (already at '' @ v @ '').'') w))"
    and "get_prop m ''version'' = Some (JString v)"
    and "f \<in> set dependency_fields \<Longrightarrow> map_of props f = Some (JObject deps) \<Longrightarrow>
         map_of deps k = Some (JString s) \<Longrightarrow> Some (JString k) \<in> set (map name wss) \<Longrightarrow>
         \<exists>deps'. get_prop m f = Some (JObject deps') \<and>
                 map_of deps' k = Some (JString (buildReplacementDepencencyVersion s v))"
proof -
  have same: "set_field ''version'' (JString v) props = props"
    using assms(2) by (rule set_field_same)
  show "bump_workspace wss v ws w =
           (None, ws\<lparr> pkgInfo := (pkgInfo ws)\<lparr> pkg := m \<rparr> \<rparr>,
            JSONFile_write ((pkgInfo ws)\<lparr> pkg := m \<rparr>)
              (log_warn (''Did not update version in package.json, etc. (already at '' @ v @ '').'') w))"
    using assms by (simp add: bump_workspace_def set_version_def same get_prop_def)
  have d: "distinct dependency_fields" by (simp add: dependency_fields_def)
  from update_dependency_fields_lookup [OF assms(3) d] obtain props' where
    m: "m = JObject props'" and
    keep: "\<And>k. k \<notin> set dependency_fields \<Longrightarrow> map_of props' k = map_of props k" and
    upd: "\<And>g. g \<in> set dependency_fields \<Longrightarrow>
            fst (updateDependencies wss (map_of props g) v) = None \<and>
            map_of props' g = snd (updateDependencies wss (map_of props g) v)"
    by blast
  have "''version'' \<notin> set dependency_fields" by (simp add: dependency_fields_def)
  from keep [OF this] assms(2) show "get_prop m ''version'' = Some (JString v)"
    by (simp add: m get_prop_def)
  assume f: "f \<in> set dependency_fields" and t: "map_of props f = Some (JObject deps)"
    and k: "map_of deps k = Some (JString s)" and sib: "Some (JString k) \<in> set (map name wss)"
  obtain r deps' where u: "update_props wss v deps = (r, deps')"
    by (cases "update_props wss v deps")
  from upd [OF f] have r: "r = None" and look: "map_of props' f = Some (JObject deps')"
    by (simp_all add: t updateDependencies_def truthy_def u)
  from update_props_lookup [OF u [unfolded r], of k] k sib
  have "map_of deps' k = Some (JString (buildReplacementDepencencyVersion s v))"
    by (simp add: rewrite_dependency_def)
  with look show "\<exists>deps'. get_prop m f = Some (JObject deps') \<and>
                 map_of deps' k = Some (JString (buildReplacementDepencencyVersion s v))"
    by (simp add: m get_prop_def)
qed

lemma update_props_strings:
  "list_all (\<lambda>(k, x). if Some (JString k) \<in> set (map name wss)
                      then (case x of JString s \<Rightarrow> True | _ \<Rightarrow> False) else True) deps \<Longrightarrow>
   fst (update_props wss v deps) = None"
proof (induction deps)
  case Nil
  show ?case by simp
next
  case (Cons kv deps)
  obtain k x where kv: "kv = (k, x)" by (cases kv)
  obtain r rest where rec: "update_props wss v deps = (r, rest)" by (cases "update_props wss v deps")
  from Cons have r: "r = None" by (simp add: rec)
  show ?case
  proof (cases "Some (JString k) \<in> set (map name wss)")
    case True
    with Cons.prems obtain s where "x = JString s" unfolding kv by (cases x) auto
    with True show ?thesis unfolding kv by (simp add: rec r rewrite_dependency_def)
  next
    case False
    then show ?thesis unfolding kv by (simp add: rec r)
  qed
qed

lemma updateDependencies_specifier:
  "specifier_table wss table \<Longrightarrow> fst (updateDependencies wss table v) = None"
proof -
  assume a: "specifier_table wss table"
  show ?thesis
  proof (cases "truthy table")
    case False
    then show ?thesis by (simp add: updateDependencies_def)
  next
    case True
    with a obtain deps where t: "table = Some (JObject deps)" and
      l: "list_all (\<lambda>(k, x). if Some (JString k) \<in> set (map name wss)
                      then (case x of JString s \<Rightarrow> True | _ \<Rightarrow> False) else True) deps"
      by (cases table; cases "the table") (auto simp: specifier_table_def truthy_def)
    from update_props_strings [OF l, of v] True show ?thesis
      by (auto simp: updateDependencies_def t split: prod.splits)
  qed
qed

lemma update_dependency_field_fst:
  "fst (update_dependency_field wss v f (JObject props)) =
     fst (updateDependencies wss (map_of props f) v)"
  by (simp add: update_dependency_field_def split: prod.splits option.splits)

lemma update_dependency_fields_specifier:
  "distinct fs \<Longrightarrow> list_all (\<lambda>f. specifier_table wss (map_of props f)) fs \<Longrightarrow>
   \<exists>m. update_dependency_fields wss v fs (JObject props) = (None, m)"
proof (induction fs arbitrary: props)
  case Nil
  show ?case by simp
next
  case (Cons f fs)
  obtain r m1 where s: "update_dependency_field wss v f (JObject props) = (r, m1)"
    by (cases "update_dependency_field wss v f (JObject props)")
  have "specifier_table wss (map_of props f)" using Cons.prems(2) by simp
  from updateDependencies_specifier [OF this, of v] have r: "r = None"
    using update_dependency_field_fst [of wss v f props] s by simp
  from update_dependency_field_object [OF s] obtain props1 where
    m1: "m1 = JObject props1" and
    other: "\<And>k. k \<noteq> f \<Longrightarrow> map_of props1 k = map_of props k" by auto
  have "specifier_table wss (map_of props1 g)" if "g \<in> set fs" for g
  proof -
    from that Cons.prems(1) have "g \<noteq> f" by auto
    from other [OF this] that Cons.prems(2) show ?thesis by (simp add: list_all_iff)
  qed
  then have "list_all (\<lambda>g. specifier_table wss (map_of props1 g)) fs"
    by (simp add: list_all_iff)
  from Cons.IH [OF _ this] Cons.prems(1) obtain m where
    "update_dependency_fields wss v fs (JObject props1) = (None, m)" by auto
  then show ?case by (simp add: s r m1)
qed

lemma bump_workspace_well_formed:
  assumes "well_formed_manifest wss (pkg (pkgInfo x))"
  shows "\<exists>x'. bumped wss v x x'"
proof -
  from assms obtain props where p: "pkg (pkgInfo x) = JObject props" and
    l: "list_all (\<lambda>f. specifier_table wss (map_of props f)) dependency_fields"
    by (cases "pkg (pkgInfo x)") (auto simp: well_formed_manifest_def dependency_fields_def)
  let ?props = "set_field ''version'' (JString v) props"
  have "map_of ?props f = map_of props f" if "f \<in> set dependency_fields" for f
    using that by (auto simp: map_of_set_field dependency_fields_def)
  then have l': "list_all (\<lambda>f. specifier_table wss (map_of ?props f)) dependency_fields"
    using l by (simp add: list_all_iff)
  have d: "distinct dependency_fields" by (simp add: dependency_fields_def)
  from update_dependency_fields_specifier [OF d l', of v] obtain m where
    m: "update_dependency_fields wss v dependency_fields (JObject ?props) = (None, m)" by blast
  let ?x' = "x\<lparr> pkgInfo := (pkgInfo x)\<lparr> pkg := m \<rparr> \<rparr>"
  have "bumped wss v x ?x'"
    unfolding bumped_def
    by (simp add: bump_workspace_def p set_version_def m get_prop_def already_at_def)
  then show ?thesis by blast
qed

lemma bump_workspaces_well_formed:
  assumes "\<forall>x \<in> set xs. well_formed_manifest wss (pkg (pkgInfo x))"
  shows "\<exists>xs' w' added.
           bump_workspaces wss v xs w = (None, xs', w') \<and>
           list_all2 (bumped wss v) xs xs' \<and>
           log w' = log w @ added \<and>
           (\<forall>x \<in> set xs. get_prop (pkg (pkgInfo x)) ''version'' = Some (JString v)
                          \<longrightarrow> Warn (already_at v) \<in> set added) \<and>
           (\<forall>p. p \<notin> set (map (\<lambda>x. filename (pkgInfo x)) xs) \<longrightarrow> files w' p = files w p) \<and>
           (distinct (map (\<lambda>x. filename (pkgInfo x)) xs) \<longrightarrow>
              (\<forall>(x, x') \<in> set (zip xs xs').
                 files w' (filename (pkgInfo x)) = Some (write_contents (pkgInfo x'))))"
  using assms
proof (induction xs arbitrary: w)
  case Nil
  show ?case by simp
next
  case (Cons x xs)
  from Cons.prems have wf: "well_formed_manifest wss (pkg (pkgInfo x))" by simp
  from bump_workspace_well_formed [OF wf, of v] obtain x' where b: "bumped wss v x x'" by blast
  define w0 where "w0 = (if get_prop (pkg (pkgInfo x)) ''version'' = Some (JString v)
                         then log_warn (already_at v) w else w)"
  define w1 where "w1 = JSONFile_write (pkgInfo x') w0"
  have fn: "filename (pkgInfo x') = filename (pkgInfo x)" using b by (simp add: bumped_def)
  have step: "bump_workspace wss v x w = (None, x', w1)"
    using b by (simp add: bumped_def w1_def w0_def)
  have log1: "log w1 = log w @ (if get_prop (pkg (pkgInfo x)) ''version'' = Some (JString v)
                                then [Warn (already_at v)] else [])"
    by (simp add: w1_def w0_def JSONFile_write_def log_warn_def)
  have files1: "files w1 = (files w)(filename (pkgInfo x) \<mapsto> write_contents (pkgInfo x'))"
    by (simp add: w1_def w0_def JSONFile_write_def log_warn_def fn)
  from Cons.prems have "\<forall>y \<in> set xs. well_formed_manifest wss (pkg (pkgInfo y))" by simp
  from Cons.IH [OF this, of w1] obtain xs' w' added where
    run: "bump_workspaces wss v xs w1 = (None, xs', w')" and
    rel: "list_all2 (bumped wss v) xs xs'" and
    lg: "log w' = log w1 @ added" and
    warn: "\<And>y. y \<in> set xs \<Longrightarrow> get_prop (pkg (pkgInfo y)) ''version'' = Some (JString v)
                 \<Longrightarrow> Warn (already_at v) \<in> set added" and
    frame: "\<And>p. p \<notin> set (map (\<lambda>x. filename (pkgInfo x)) xs) \<Longrightarrow> files w' p = files w1 p" and
    written: "distinct (map (\<lambda>x. filename (pkgInfo x)) xs) \<Longrightarrow>
              (\<forall>(y, y') \<in> set (zip xs xs').
                 files w' (filename (pkgInfo y)) = Some (write_contents (pkgInfo y')))"
    by blast
  define added' where "added' = (if get_prop (pkg (pkgInfo x)) ''version'' = Some (JString v)
                                 then [Warn (already_at v)] else []) @ added"
  have 1: "bump_workspaces wss v (x # xs) w = (None, x' # xs', w')"
    by (simp add: step run)
  have 2: "list_all2 (bumped wss v) (x # xs) (x' # xs')" using b rel by simp
  have 3: "log w' = log w @ added'" by (simp add: lg log1 added'_def)
  have 4: "\<forall>y \<in> set (x # xs). get_prop (pkg (pkgInfo y)) ''version'' = Some (JString v)
                          \<longrightarrow> Warn (already_at v) \<in> set added'"
    using warn by (auto simp: added'_def)
  have 5: "\<forall>p. p \<notin> set (map (\<lambda>x. filename (pkgInfo x)) (x # xs)) \<longrightarrow> files w' p = files w p"
    using frame by (simp add: files1)
  have 6: "distinct (map (\<lambda>x. filename (pkgInfo x)) (x # xs)) \<longrightarrow>
              (\<forall>(y, y') \<in> set (zip (x # xs) (x' # xs')).
                 files w' (filename (pkgInfo y)) = Some (write_contents (pkgInfo y')))"
  proof
    assume d: "distinct (map (\<lambda>x. filename (pkgInfo x)) (x # xs))"
    then have nx: "filename (pkgInfo x) \<notin> set (map (\<lambda>x. filename (pkgInfo x)) xs)"
      and dx: "distinct (map (\<lambda>x. filename (pkgInfo x)) xs)" by simp_all
    have "files w' (filename (pkgInfo x)) = Some (write_contents (pkgInfo x'))"
      using frame [OF nx] by (simp add: files1)
    with written [OF dx] show "\<forall>(y, y') \<in> set (zip (x # xs) (x' # xs')).
                 files w' (filename (pkgInfo y)) = Some (write_contents (pkgInfo y'))"
      by simp
  qed
  from 1 2 3 4 5 6 show ?case by blast
qed

lemma bump_distTag_total:
  "truthy_string t \<or> v = [] \<or> semver_parse v \<noteq> None \<or> semver_coerce v \<noteq> None \<Longrightarrow>
   \<exists>tg. bump_distTag t v = Inr tg"
  by (auto simp: bump_distTag_cases split: option.splits)

lemma sample_siblings_well_formed:
  "well_formed_manifest sample_siblings (pkg (pkgInfo (sample_package ''a'' ''2.0.0'' [])))"
  "well_formed_manifest sample_siblings
     (pkg (pkgInfo (sample_package ''b'' ''2.0.0'' [(''a'', JString ''^1.0.0'')])))"
  by (simp_all add: well_formed_manifest_def specifier_table_def truthy_def sample_siblings_def
      sample_package_def numeric_identifier_def is_digit_def)

lemma coerce_5: "semver_coerce (show_int 5) \<noteq> None"
  by (simp add: show_int_def show_nat.simps semver_defs char_class_defs Let_def)

text \<open>
  Claim C8, as the code has it.  Outside a dry run, let the tag resolve (a \<open>distTag\<close>
  option is set, or the version is empty or accepted by \<open>semver.parse\<close> or
  \<open>semver.coerce\<close>), and let the manifest of every workspace be an object whose four
  dependency tables are absent (or falsy) or objects that hold strings for the names of
  the workspaces; as \<open>getWorkspaces\<close> builds the list, the manifests are values that
  \<open>JSON.parse\<close> yields, at distinct paths.  Then, for every workspace whose manifest
  already has the target version, \<open>bump\<close> raises no exception, adds the warning to the
  log, leaves the version of the manifest at the target version, rewrites in each of
  the four dependency tables every specifier of a sibling workspace by
  \<open>buildReplacementDepencencyVersion\<close>, and writes the manifest: after \<open>bump\<close> its
  file holds the text of the manifest as \<open>bump\<close> left it.
\<close>

theorem bump_same_version:
  assumes run: "\<not> isDryRun e"
    and tag: "truthy_string t \<or> v = [] \<or> semver_parse v \<noteq> None \<or> semver_coerce v \<noteq> None"
    and wf: "\<forall>x \<in> set wss. well_formed_manifest wss (pkg (pkgInfo x))"
    and paths: "distinct (map (\<lambda>x. filename (pkgInfo x)) wss)"
    and i: "i < length wss"
    and same: "get_prop (pkg (pkgInfo (wss ! i))) ''version'' = Some (JString v)"
  shows "\<exists>tg wss' w' added.
           bump e t v wss w =
             (None,
              Some \<lparr> ctx_distTag = tg, ctx_version = v, ctx_packageNames = map name wss \<rparr>,
              wss', w') \<and>
           length wss' = length wss \<and>
           log w' = log w @ added \<and>
           Warn (''Did not update version in package.json, etc. (already at '' @ v @ '').'')
             \<in> set added \<and>
           get_prop (pkg (pkgInfo (wss' ! i))) ''version'' = Some (JString v) \<and>
           (\<forall>f deps k s.
              f \<in> {''dependencies'', ''devDependencies'', ''optionalDependencies'',
                    ''peerDependencies''} \<and>
              get_prop (pkg (pkgInfo (wss ! i))) f = Some (JObject deps) \<and>
              map_of deps k = Some (JString s) \<and> Some (JString k) \<in> set (map name wss)
              \<longrightarrow> (\<exists>deps'. get_prop (pkg (pkgInfo (wss' ! i))) f = Some (JObject deps') \<and>
                     map_of deps' k = Some (JString (buildReplacementDepencencyVersion s v)))) \<and>
           filename (pkgInfo (wss' ! i)) = filename (pkgInfo (wss ! i)) \<and>
           files w' (filename (pkgInfo (wss ! i))) = Some (write_contents (pkgInfo (wss' ! i)))"
proof -
  from bump_distTag_total [OF tag] obtain tg where tg: "bump_distTag t v = Inr tg" by blast
  from bump_workspaces_well_formed [OF wf, of v w] paths obtain wss' w' added where
    all: "bump_workspaces wss v wss w = (None, wss', w')" and
    rel: "list_all2 (bumped wss v) wss wss'" and
    lg: "log w' = log w @ added" and
    warn: "\<And>x. x \<in> set wss \<Longrightarrow> get_prop (pkg (pkgInfo x)) ''version'' = Some (JString v)
                 \<Longrightarrow> Warn (already_at v) \<in> set added" and
    written: "\<forall>(x, x') \<in> set (zip wss wss').
                 files w' (filename (pkgInfo x)) = Some (write_contents (pkgInfo x'))"
    by blast
  let ?x = "wss ! i" and ?x' = "wss' ! i"
  have len: "length wss' = length wss" using rel by (simp add: list_all2_lengthD)
  have mem: "?x \<in> set wss" using i by simp
  have b: "bumped wss v ?x ?x'" using rel i by (rule list_all2_nthD)
  have "(?x, ?x') \<in> set (zip wss wss')" using i len by (auto simp: in_set_zip)
  with written have stored: "files w' (filename (pkgInfo ?x)) = Some (write_contents (pkgInfo ?x'))"
    by auto
  from wf mem obtain props where p: "pkg (pkgInfo ?x) = JObject props" and
    l: "list_all (\<lambda>f. specifier_table wss (map_of props f)) dependency_fields"
    by (cases "pkg (pkgInfo ?x)") (auto simp: well_formed_manifest_def dependency_fields_def)
  have ver: "map_of props ''version'' = Some (JString v)" using same p by (simp add: get_prop_def)
  have d: "distinct dependency_fields" by (simp add: dependency_fields_def)
  from update_dependency_fields_specifier [OF d l, of v] obtain m where
    m: "update_dependency_fields wss v dependency_fields (JObject props) = (None, m)" by blast
  note facts = bump_workspace_same_version [OF p ver m]
  have "bump_workspace wss v ?x w = (None, ?x', JSONFile_write (pkgInfo ?x') (log_warn (already_at v) w))"
    using b same by (simp add: bumped_def)
  with facts(1) [of w] have x': "?x' = ?x\<lparr> pkgInfo := (pkgInfo ?x)\<lparr> pkg := m \<rparr> \<rparr>" by simp
  then have pk: "pkg (pkgInfo ?x') = m" by simp
  have 1: "bump e t v wss w =
             (None, Some \<lparr> ctx_distTag = tg, ctx_version = v, ctx_packageNames = map name wss \<rparr>,
              wss', w')"
    using run by (simp add: bump_def tg all)
  have 2: "Warn (''Did not update version in package.json, etc. (already at '' @ v @ '').'')
             \<in> set added"
    using warn [OF mem same] by (simp add: already_at_def)
  have 3: "get_prop (pkg (pkgInfo ?x')) ''version'' = Some (JString v)"
    using facts(2) pk by simp
  have 4: "\<exists>deps'. get_prop (pkg (pkgInfo ?x')) f = Some (JObject deps') \<and>
                   map_of deps' k = Some (JString (buildReplacementDepencencyVersion s v))"
    if "f \<in> {''dependencies'', ''devDependencies'', ''optionalDependencies'', ''peerDependencies''}"
      "get_prop (pkg (pkgInfo ?x)) f = Some (JObject deps)" "map_of deps k = Some (JString s)"
      "Some (JString k) \<in> set (map name wss)" for f deps k s
  proof -
    have "f \<in> set dependency_fields" using that(1) by (simp add: dependency_fields_def)
    moreover have "map_of props f = Some (JObject deps)" using that(2) p by (simp add: get_prop_def)
    ultimately show ?thesis using facts(3) [of f deps k s] that(3,4) pk by simp
  qed
  have 5: "filename (pkgInfo ?x') = filename (pkgInfo ?x)" using b by (simp add: bumped_def)
  from 1 len lg 2 3 4 5 stored show ?thesis by blast
qed

text \<open>
  The hypotheses hold for the workspaces \<open>a\<close> and \<open>b\<close> at \<open>2.0.0\<close>, where \<open>b\<close> depends on
  \<open>a\<close> at \<open>^1.0.0\<close>: the theorem is applied to \<open>b\<close>.
\<close>

theorem bump_same_version_witness:
  "\<not> isDryRun (sample_env None) \<and>
   semver_parse ''2.0.0'' =
     Some \<lparr> major = 2, minor = 0, patch = 0, prerelease = [], build = [] \<rparr> \<and>
   well_formed_manifest sample_siblings (pkg (pkgInfo (sample_package ''a'' ''2.0.0'' []))) \<and>
   well_formed_manifest sample_siblings
     (pkg (pkgInfo (sample_package ''b'' ''2.0.0'' [(''a'', JString ''^1.0.0'')]))) \<and>
   distinct (map (\<lambda>x. filename (pkgInfo x)) sample_siblings) \<and>
   1 < length sample_siblings \<and>
   get_prop (pkg (pkgInfo (sample_siblings ! 1))) ''version'' = Some (JString ''2.0.0'') \<and>
   get_prop (pkg (pkgInfo (sample_siblings ! 1))) ''dependencies''
     = Some (JObject [(''a'', JString ''^1.0.0'')]) \<and>
   Some (JString ''a'') \<in> set (map name sample_siblings) \<and>
   buildReplacementDepencencyVersion ''^1.0.0'' ''2.0.0'' = ''^2.0.0'' \<and>
   (\<exists>tg wss' w' added.
      bump (sample_env None) None ''2.0.0'' sample_siblings sample_world =
        (None,
         Some \<lparr> ctx_distTag = tg, ctx_version = ''2.0.0'',
                ctx_packageNames = map name sample_siblings \<rparr>,
         wss', w') \<and>
      length wss' = length sample_siblings \<and>
      log w' = log sample_world @ added \<and>
      Warn ''Did not update version in package.json, etc. (already at 2.0.0).'' \<in> set added \<and>
      get_prop (pkg (pkgInfo (wss' ! 1))) ''version'' = Some (JString ''2.0.0'') \<and>
      (\<exists>deps'. get_prop (pkg (pkgInfo (wss' ! 1))) ''dependencies'' = Some (JObject deps') \<and>
                map_of deps' ''a'' = Some (JString ''^2.0.0'')) \<and>
      filename (pkgInfo (wss' ! 1)) = ''/repo/packages/b/package.json'' \<and>
      files w' ''/repo/packages/b/package.json'' = Some (write_contents (pkgInfo (wss' ! 1))))"
proof -
  have run: "\<not> isDryRun (sample_env None)" by (simp add: sample_env_def)
  have p: "semver_parse ''2.0.0'' =
     Some \<lparr> major = 2, minor = 0, patch = 0, prerelease = [], build = [] \<rparr>"
    by (simp add: semver_defs char_class_defs Let_def)
  then have tag: "truthy_string None \<or> ''2.0.0'' = [] \<or> semver_parse ''2.0.0'' \<noteq> None
                  \<or> semver_coerce ''2.0.0'' \<noteq> None" by simp
  have wf: "\<forall>x \<in> set sample_siblings. well_formed_manifest sample_siblings (pkg (pkgInfo x))"
    using sample_siblings_well_formed by (simp add: sample_siblings_def)
  have paths: "distinct (map (\<lambda>x. filename (pkgInfo x)) sample_siblings)"
    by (simp add: sample_siblings_def sample_package_def)
  have i: "1 < length sample_siblings" by (simp add: sample_siblings_def)
  have same: "get_prop (pkg (pkgInfo (sample_siblings ! 1))) ''version'' = Some (JString ''2.0.0'')"
    by (simp add: sample_siblings_def sample_package_def get_prop_def)
  have sib: "Some (JString ''a'') \<in> set (map name sample_siblings)"
    by (simp add: sample_siblings_def sample_package_def)
  have deps: "get_prop (pkg (pkgInfo (sample_siblings ! 1))) ''dependencies''
                = Some (JObject [(''a'', JString ''^1.0.0'')])"
    by (simp add: sample_siblings_def sample_package_def get_prop_def)
  note inst = bump_same_version [OF run tag wf paths i same, of sample_world]
  have ex: "\<exists>tg wss' w' added.
      bump (sample_env None) None ''2.0.0'' sample_siblings sample_world =
        (None,
         Some \<lparr> ctx_distTag = tg, ctx_version = ''2.0.0'',
                ctx_packageNames = map name sample_siblings \<rparr>,
         wss', w') \<and>
      length wss' = length sample_siblings \<and>
      log w' = log sample_world @ added \<and>
      Warn ''Did not update version in package.json, etc. (already at 2.0.0).'' \<in> set added \<and>
      get_prop (pkg (pkgInfo (wss' ! 1))) ''version'' = Some (JString ''2.0.0'') \<and>
      (\<exists>deps'. get_prop (pkg (pkgInfo (wss' ! 1))) ''dependencies'' = Some (JObject deps') \<and>
                map_of deps' ''a'' = Some (JString ''^2.0.0'')) \<and>
      filename (pkgInfo (wss' ! 1)) = ''/repo/packages/b/package.json'' \<and>
      files w' ''/repo/packages/b/package.json'' = Some (write_contents (pkgInfo (wss' ! 1)))"
  proof -
    have fn: "filename (pkgInfo (sample_siblings ! 1)) = ''/repo/packages/b/package.json''"
      by (simp add: sample_siblings_def sample_package_def)
    obtain tg wss' w' added where r:
      "bump (sample_env None) None ''2.0.0'' sample_siblings sample_world =
          (None,
           Some \<lparr> ctx_distTag = tg, ctx_version = ''2.0.0'',
                  ctx_packageNames = map name sample_siblings \<rparr>,
           wss', w') \<and>
      length wss' = length sample_siblings \<and>
      log w' = log sample_world @ added \<and>
      Warn (''Did not update version in package.json, etc. (already at '' @ ''2.0.0'' @ '').'')
         \<in> set added \<and>
      get_prop (pkg (pkgInfo (wss' ! 1))) ''version'' = Some (JString ''2.0.0'') \<and>
      (\<forall>f deps k s.
          f \<in> {''dependencies'', ''devDependencies'', ''optionalDependencies'', ''peerDependencies''} \<and>
          get_prop (pkg (pkgInfo (sample_siblings ! 1))) f = Some (JObject deps) \<and>
          map_of deps k = Some (JString s) \<and> Some (JString k) \<in> set (map name sample_siblings) \<longrightarrow>
          (\<exists>deps'. get_prop (pkg (pkgInfo (wss' ! 1))) f = Some (JObject deps') \<and>
                  map_of deps' k = Some (JString (buildReplacementDepencencyVersion s ''2.0.0'')))) \<and>
      filename (pkgInfo (wss' ! 1)) = filename (pkgInfo (sample_siblings ! 1)) \<and>
      files w' (filename (pkgInfo (sample_siblings ! 1))) = Some (write_contents (pkgInfo (wss' ! 1)))"
      using inst by (elim exE) (rule that)
    have mem: "''dependencies'' \<in> {''dependencies'', ''devDependencies'', ''optionalDependencies'',
                                      ''peerDependencies''}" by (rule insertI1)
    have look: "map_of [(''a'', JString ''^1.0.0'')] ''a'' = Some (JString ''^1.0.0'')" by simp
    from r have six: "\<forall>f deps k s.
          f \<in> {''dependencies'', ''devDependencies'', ''optionalDependencies'', ''peerDependencies''} \<and>
          get_prop (pkg (pkgInfo (sample_siblings ! 1))) f = Some (JObject deps) \<and>
          map_of deps k = Some (JString s) \<and> Some (JString k) \<in> set (map name sample_siblings) \<longrightarrow>
          (\<exists>deps'. get_prop (pkg (pkgInfo (wss' ! 1))) f = Some (JObject deps') \<and>
                  map_of deps' k = Some (JString (buildReplacementDepencencyVersion s ''2.0.0'')))"
      by (elim conjE)
    from six [rule_format, of "''dependencies''" "[(''a'', JString ''^1.0.0'')]" "''a''" "''^1.0.0''"]
      mem deps look sib
    have rew: "\<exists>deps'. get_prop (pkg (pkgInfo (wss' ! 1))) ''dependencies'' = Some (JObject deps') \<and>
                       map_of deps' ''a'' = Some (JString ''^2.0.0'')"
      by (simp only: rewrite_caret_1_0_0 simp_thms)
    have msg: "''Did not update version in package.json, etc. (already at '' @ ''2.0.0'' @ '').''
                 = ''Did not update version in package.json, etc. (already at 2.0.0).''" by simp
    from r rew show ?thesis
      unfolding msg fn
      by (intro exI [of _ tg] exI [of _ wss'] exI [of _ w'] exI [of _ added]) (simp only: simp_thms)
  qed
  from run p sample_siblings_well_formed paths i same deps sib rewrite_caret_1_0_0 ex
  show ?thesis by (simp only: simp_thms)
qed

text \<open>
  Four runs of \<open>bump\<close> with a workspace \<open>b\<close> that is already at the target version.  With
  the number 5 as the specifier of its sibling \<open>a\<close>, \<open>bump\<close> logs the warning and then
  throws: the manifest of \<open>b\<close> is not written.  When the workspace \<open>a\<close> before it has
  such a specifier, \<open>bump\<close> throws there and never reaches \<open>b\<close>: no warning, nothing
  written.  In a dry run \<open>bump\<close> only logs the names of the packages: no warning,
  nothing written.  With a version that \<open>parseVersion\<close> rejects, \<open>bump\<close> throws before
  it reaches the workspaces.
\<close>

theorem bump_same_version_fails:
  "(case bump (sample_env None) None ''2.0.0'' numeric_sibling sample_world of
      (r, ctx, wss', w') \<Rightarrow>
        r = Some (TypeError ''existingVersion.replace is not a function'') \<and>
        log w' = [Warn ''Did not update version in package.json, etc. (already at 2.0.0).''] \<and>
        files w' ''/repo/packages/a/package.json''
          = Some (write_contents (pkgInfo (sample_package ''a'' ''2.0.0'' []))) \<and>
        files w' ''/repo/packages/b/package.json'' = None) \<and>
   (case bump (sample_env None) None ''2.0.0'' numeric_earlier sample_world of
      (r, ctx, wss', w') \<Rightarrow>
        r = Some (TypeError ''existingVersion.replace is not a function'') \<and>
        log w' = [] \<and>
        files w' ''/repo/packages/a/package.json'' = None \<and>
        files w' ''/repo/packages/b/package.json'' = None) \<and>
   (case bump ((sample_env None)\<lparr> isDryRun := True \<rparr>) None ''2.0.0'' sample_siblings sample_world of
      (r, ctx, wss', w') \<Rightarrow>
        r = None \<and> wss' = sample_siblings \<and>
        log w' = [Exec ''Bumping versions in a, b''] \<and>
        files w' ''/repo/packages/b/package.json'' = None) \<and>
   bump (sample_env None) None ''not-a-version'' [sample_package ''a'' ''not-a-version'' []]
     sample_world =
     (Some (TypeError ''Cannot read properties of null (reading prerelease)''), None,
      [sample_package ''a'' ''not-a-version'' []], sample_world)"
proof -
  have 1: "bump (sample_env None) None ''2.0.0'' numeric_sibling sample_world =
     (Some (TypeError ''existingVersion.replace is not a function''),
      Some \<lparr> ctx_distTag = Some ''latest'', ctx_version = ''2.0.0'',
             ctx_packageNames = [Some (JString ''a''), Some (JString ''b'')] \<rparr>,
      [sample_package ''a'' ''2.0.0'' [], sample_package ''b'' ''2.0.0'' [(''a'', JNum 5)]],
      log_warn ''Did not update version in package.json, etc. (already at 2.0.0).''
        (JSONFile_write (pkgInfo (sample_package ''a'' ''2.0.0'' [])) sample_world))"
    using coerce_5
    by (simp add: bump_defs bump_distTag_2_0_0 numeric_sibling_def sample_package_def
          sample_env_def sample_world_def JSONFile_write_def MAX_SAFE_INTEGER_def)
  have 4: "bump (sample_env None) None ''2.0.0'' numeric_earlier sample_world =
     (Some (TypeError ''existingVersion.replace is not a function''),
      Some \<lparr> ctx_distTag = Some ''latest'', ctx_version = ''2.0.0'',
             ctx_packageNames = [Some (JString ''a''), Some (JString ''b'')] \<rparr>,
      [sample_package ''a'' ''2.0.0'' [(''b'', JNum 5)], sample_package ''b'' ''2.0.0'' []],
      sample_world)"
    using coerce_5
    by (simp add: bump_defs bump_distTag_2_0_0 numeric_earlier_def sample_package_def
          sample_env_def sample_world_def JSONFile_write_def MAX_SAFE_INTEGER_def)
  have 2: "bump ((sample_env None)\<lparr> isDryRun := True \<rparr>) None ''2.0.0'' sample_siblings sample_world =
     (None,
      Some \<lparr> ctx_distTag = Some ''latest'', ctx_version = ''2.0.0'',
             ctx_packageNames = [Some (JString ''a''), Some (JString ''b'')] \<rparr>,
      sample_siblings,
      sample_world\<lparr> log := [Exec ''Bumping versions in a, b''] \<rparr>)"
    by (simp add: bump_def bump_distTag_2_0_0 sample_siblings_def sample_package_def
          sample_env_def sample_world_def js_join_def)
  have q: "semver_parse ''not-a-version'' = None" "semver_coerce ''not-a-version'' = None"
    by (simp_all add: semver_defs char_class_defs Let_def)
  have 3: "bump (sample_env None) None ''not-a-version'' [sample_package ''a'' ''not-a-version'' []]
     sample_world =
     (Some (TypeError ''Cannot read properties of null (reading prerelease)''), None,
      [sample_package ''a'' ''not-a-version'' []], sample_world)"
    by (simp add: bump_def bump_distTag_cases truthy_string_def q)
  show ?thesis
    unfolding 1 2 3 4
    by (simp add: JSONFile_write_def log_warn_def sample_world_def)
       (simp add: sample_package_def)
qed

section \<open>Loading a manifest and writing it back\<close>

subsection \<open>The sample manifests\<close>

lemmas parse_defs = JSON_parse_def parse_value.simps parse_elements.simps parse_members.simps
  parse_string_chars.simps string_step_def map_parsed_def skip_ws_def json_ws_def
  parse_number_def is_array_index_def unescape_def hex_value_def

lemmas detect_defs = detectNewline_def detectIndent_amount_def makeIndentsMap_def
  getMostUsedKey_def indent_step_def line_indent_def

lemma parse_tab_manifest: "JSON_parse tab_manifest = Inr (JObject [(''name'', JString ''a'')])"
  by (simp add: tab_manifest_def parse_defs numeric_identifier_def is_digit_def)

lemma parse_inline_manifest:
  "JSON_parse inline_manifest =
     Inr (JObject [(''name'', JString ''a''), (''files'', JArray [JString ''lib''])])"
  by (simp add: inline_manifest_def parse_defs numeric_identifier_def is_digit_def)

lemma detect_tab_manifest:
  "detectNewline tab_manifest = Some [LF]" "detectIndent_amount tab_manifest = 1"
  "rev (takeWhile is_space (rev tab_manifest)) = [LF]"
  by (simp_all add: tab_manifest_def detect_defs is_space_def Let_def)

lemma detect_inline_manifest:
  "detectNewline inline_manifest = Some [LF]" "detectIndent_amount inline_manifest = 2"
  "rev (takeWhile is_space (rev inline_manifest)) = [LF]"
  by (simp_all add: inline_manifest_def detect_defs is_space_def Let_def)

lemma parse_wide_manifest:
  "JSON_parse wide_manifest =
     Inr (JObject [(''name'', JString ''a''), (''files'', JArray [JString ''lib''])])"
  by (simp add: wide_manifest_def parse_defs numeric_identifier_def is_digit_def)

lemma stringify_wide_manifest:
  "replace_newlines (Some [CR, LF])
     (JSON_stringify (JObject [(''name'', JString ''a''), (''files'', JArray [JString ''lib''])]) 4)
     @ concat (replicate 2 [CR, LF]) = wide_manifest"
  by (simp add: wide_manifest_def JSON_stringify_def replace_newlines_def json_quote_def
      quote_char_def eval_nat_numeral)

subsection \<open>The text that \<open>write\<close> produces\<close>

lemma replace_newlines_append:
  "replace_newlines le (a @ b) = replace_newlines le a @ replace_newlines le b"
  by (simp add: replace_newlines_def)

lemma replace_newlines_id: "LF \<notin> set t \<Longrightarrow> replace_newlines le t = t"
  by (induction t) (auto simp: replace_newlines_def)

lemma replace_newlines_LF: "replace_newlines (Some le) (LF # t) = le @ replace_newlines (Some le) t"
  by (simp add: replace_newlines_def)

lemma replace_newlines_Cons:
  "c \<noteq> LF \<Longrightarrow> replace_newlines le (c # t) = c # replace_newlines le t"
  by (simp add: replace_newlines_def)

lemma hex_digit_plain:
  "k < 16 \<Longrightarrow> ''0123456789abcdef'' ! k \<noteq> LF \<and> ''0123456789abcdef'' ! k \<noteq> CR"
proof -
  assume k: "k < 16"
  have all: "list_all (\<lambda>x. x \<noteq> LF \<and> x \<noteq> CR) ''0123456789abcdef''"
    by simp
  have "''0123456789abcdef'' ! k \<in> set ''0123456789abcdef''"
    using k by (intro nth_mem) simp
  with all show ?thesis
    unfolding list_all_iff by blast
qed

lemma quote_char_plain: "LF \<notin> set (quote_char c) \<and> CR \<notin> set (quote_char c)"
proof -
  define x where "x = ''0123456789abcdef'' ! ((of_char c :: nat) div 16)"
  define y where "y = ''0123456789abcdef'' ! ((of_char c :: nat) mod 16)"
  have "(of_char c :: nat) div 16 < 16" if "(of_char c :: nat) < 32"
    using that by simp
  from hex_digit_plain [OF this] hex_digit_plain [of "(of_char c :: nat) mod 16"]
  have "(of_char c :: nat) < 32 \<Longrightarrow> x \<noteq> LF \<and> x \<noteq> CR \<and> y \<noteq> LF \<and> y \<noteq> CR"
    unfolding x_def y_def by simp
  then show ?thesis
    unfolding quote_char_def x_def [symmetric] y_def [symmetric] by auto
qed

lemma json_quote_plain: "LF \<notin> set (json_quote s) \<and> CR \<notin> set (json_quote s)"
  using quote_char_plain by (auto simp: json_quote_def)

lemma digit_char_is_digit: "k < 10 \<Longrightarrow> is_digit (''0123456789'' ! k)"
proof -
  assume "k < 10"
  then have "''0123456789'' ! k \<in> set ''0123456789''"
    by (intro nth_mem) simp
  then show ?thesis unfolding is_digit_def .
qed

lemma show_nat_is_digit: "list_all is_digit (show_nat n)"
proof (induction n rule: show_nat.induct)
  case (1 n)
  show ?case
  proof (cases "n < 10")
    case True
    have "show_nat n = [''0123456789'' ! n]"
      using True by (subst show_nat.simps) (simp only: if_True)
    with digit_char_is_digit [OF True] show ?thesis by (simp del: nth_Cons_numeral nth_Cons')
  next
    case False
    have eq: "show_nat n = show_nat (n div 10) @ [''0123456789'' ! (n mod 10)]"
      using False by (subst show_nat.simps) (simp only: if_False)
    have "is_digit (''0123456789'' ! (n mod 10))"
      by (rule digit_char_is_digit) simp
    with "1.IH" [OF False] show ?thesis
      unfolding eq by (simp del: nth_Cons_numeral nth_Cons')
  qed
qed

lemma show_nat_nonempty: "show_nat n \<noteq> []"
proof (cases "n < 10")
  case True
  have "show_nat n = [''0123456789'' ! n]"
    using True by (subst show_nat.simps) (simp only: if_True)
  then show ?thesis by (simp only: list.distinct not_False_eq_True)
next
  case False
  have "show_nat n = show_nat (n div 10) @ [''0123456789'' ! (n mod 10)]"
    using False by (subst show_nat.simps) (simp only: if_False)
  then show ?thesis by (simp only: append_is_Nil_conv list.distinct simp_thms not_False_eq_True)
qed

lemma is_digit_plain:
  "is_digit c \<Longrightarrow> c \<noteq> LF \<and> c \<noteq> CR \<and> c \<noteq> CHR '' '' \<and> c \<noteq> TAB \<and> \<not> is_space c \<and> c \<noteq> CHR ''-''"
  unfolding is_digit_def is_space_def by auto

lemma show_int_chars:
  "list_all (\<lambda>c. is_digit c \<or> c = CHR ''-'') (show_int i)" "show_int i \<noteq> []"
proof -
  have 1: "list_all (\<lambda>c. is_digit c \<or> c = CHR ''-'') (show_nat n)" for n
    using show_nat_is_digit [of n] unfolding list_all_iff by blast
  show "list_all (\<lambda>c. is_digit c \<or> c = CHR ''-'') (show_int i)"
    unfolding show_int_def using 1 by simp
  show "show_int i \<noteq> []"
    unfolding show_int_def using show_nat_nonempty by simp
qed

lemma show_int_plain:
  "LF \<notin> set (show_int i)" "CR \<notin> set (show_int i)"
  "hd (show_int i) \<noteq> CHR '' ''" "hd (show_int i) \<noteq> TAB" "\<not> is_space (last (show_int i))"
  "hd (show_int i) \<noteq> LF"
proof -
  have mem: "c \<in> set (show_int i) \<Longrightarrow> is_digit c \<or> c = CHR ''-''" for c
    using show_int_chars(1) [of i] unfolding list_all_iff by blast
  have ok: "c \<in> set (show_int i) \<Longrightarrow>
      c \<noteq> LF \<and> c \<noteq> CR \<and> c \<noteq> CHR '' '' \<and> c \<noteq> TAB \<and> \<not> is_space c" for c
    using mem [of c] is_digit_plain [of c] by (auto simp: is_space_def)
  have "hd (show_int i) \<in> set (show_int i)" "last (show_int i) \<in> set (show_int i)"
    using show_int_chars(2) by simp_all
  with ok show "LF \<notin> set (show_int i)" "CR \<notin> set (show_int i)"
    "hd (show_int i) \<noteq> CHR '' ''" "hd (show_int i) \<noteq> TAB" "\<not> is_space (last (show_int i))"
    "hd (show_int i) \<noteq> LF"
    by blast+
qed

lemma set_join_with: "set (join_with sep ts) \<subseteq> set sep \<union> (\<Union>t \<in> set ts. set t)"
  by (induction sep ts rule: join_with.induct) auto

lemma serialize_no_CR:
  "CR \<notin> set gap \<Longrightarrow> CR \<notin> set ind \<Longrightarrow> CR \<notin> set (serialize gap ind v)"
  "CR \<notin> set gap \<Longrightarrow> CR \<notin> set ind \<Longrightarrow> \<forall>t \<in> set (serialize_elements gap ind xs). CR \<notin> set t"
  "CR \<notin> set gap \<Longrightarrow> CR \<notin> set ind \<Longrightarrow> \<forall>t \<in> set (serialize_members gap ind props). CR \<notin> set t"
proof (induction gap ind v and gap ind xs and gap ind props
    rule: serialize_serialize_elements_serialize_members.induct)
  case (3 gap ind n)
  then show ?case using show_int_plain(2) by simp
next
  case (4 gap ind s)
  then show ?case using json_quote_plain by simp
next
  case (5 gap ind xs)
  show ?case
  proof (cases "xs = []")
    case True
    then show ?thesis by simp
  next
    case False
    have el: "\<forall>t \<in> set (serialize_elements gap (ind @ gap) xs). CR \<notin> set t"
      using 5 False by (cases "gap = []") auto
    have "CR \<notin> set (join_with sep (serialize_elements gap (ind @ gap) xs))"
      if "CR \<notin> set sep" for sep
      using that set_join_with [of sep "serialize_elements gap (ind @ gap) xs"] el by blast
    from this [of "'',''"] this [of "'','' @ [LF] @ ind @ gap"] 5(3,4) show ?thesis
      by (cases "gap = []") auto
  qed
next
  case (6 gap ind props)
  show ?case
  proof (cases "props = []")
    case True
    then show ?thesis by simp
  next
    case False
    have el: "\<forall>t \<in> set (serialize_members gap (ind @ gap) props). CR \<notin> set t"
      using 6 False by (cases "gap = []") auto
    have "CR \<notin> set (join_with sep (serialize_members gap (ind @ gap) props))"
      if "CR \<notin> set sep" for sep
      using that set_join_with [of sep "serialize_members gap (ind @ gap) props"] el by blast
    from this [of "'',''"] this [of "'','' @ [LF] @ ind @ gap"] 6(3,4) show ?thesis
      by (cases "gap = []") auto
  qed
next
  case (10 gap ind k v props)
  then show ?case using json_quote_plain by simp
qed simp_all

lemma json_quote_hd_last: "json_quote s \<noteq> [] \<and> hd (json_quote s) = DQ \<and> last (json_quote s) = DQ"
  by (simp add: json_quote_def)

lemma serialize_hd:
  "serialize gap ind v \<noteq> [] \<and> hd (serialize gap ind v) \<noteq> CHR '' '' \<and>
   hd (serialize gap ind v) \<noteq> TAB \<and> hd (serialize gap ind v) \<noteq> LF"
proof (cases v)
  case (JNum n)
  from show_int_plain [of n] show_int_chars(2) [of n] JNum show ?thesis by simp
next
  case (JString s)
  with json_quote_hd_last [of s] show ?thesis by simp
qed (auto simp: hd_append)

lemma serialize_last: "\<not> is_space (last (serialize gap ind v))"
  using show_int_plain [of "case v of JNum n \<Rightarrow> n | _ \<Rightarrow> 0"] show_int_chars(2) json_quote_hd_last
  by (cases v) (auto simp: is_space_def)

subsection \<open>Indent detection on the text that \<open>write\<close> produces\<close>

text \<open>
  \<open>makeIndentsMap\<close> reads the text line by line.  Reading it character by character,
  with the part of the current line read so far, gives the same state and composes
  over the pieces of a serialised value.
\<close>

lemma scan_append: "scan ig s (a @ b) = scan ig (scan ig s a) b"
  by (simp add: scan_def)

lemma scan_Nil: "scan ig s [] = s"
  by (simp add: scan_def)

lemma scan_LF: "scan ig (st, cur) (LF # t) = scan ig (indent_step ig st cur, []) t"
  by (simp add: scan_def)

lemma scan_content: "LF \<notin> set t \<Longrightarrow> scan ig (st, cur) t = (st, cur @ t)"
  by (induction t arbitrary: cur) (auto simp: scan_def)

lemma split_on_no_sep: "sep \<notin> set l \<Longrightarrow> split_on sep l = [l]"
  by (induction l) auto

lemma split_on_append_sep:
  "sep \<notin> set l \<Longrightarrow> split_on sep (l @ sep # t) = l # split_on sep t"
  by (induction l) auto

lemma split_on_nonempty: "split_on sep t \<noteq> []"
  by (induction t) (auto split: list.splits)

lemma scan_lines:
  "LF \<notin> set cur \<Longrightarrow>
   foldl (indent_step ig) st (split_on LF (cur @ body)) =
     (case scan ig (st, cur) body of (st', cur') \<Rightarrow> indent_step ig st' cur')"
proof (induction body arbitrary: st cur)
  case Nil
  then show ?case by (simp add: scan_Nil split_on_no_sep)
next
  case (Cons c body)
  show ?case
  proof (cases "c = LF")
    case True
    have "foldl (indent_step ig) st (split_on LF (cur @ LF # body)) =
          foldl (indent_step ig) (indent_step ig st cur) (split_on LF ([] @ body))"
      using Cons.prems by (simp add: split_on_append_sep)
    also have "\<dots> = (case scan ig (indent_step ig st cur, []) body of
                        (st', cur') \<Rightarrow> indent_step ig st' cur')"
      by (rule Cons.IH) simp
    finally show ?thesis using True by (simp add: scan_LF)
  next
    case False
    have "foldl (indent_step ig) st (split_on LF ((cur @ [c]) @ body)) =
          (case scan ig (st, cur @ [c]) body of (st', cur') \<Rightarrow> indent_step ig st' cur')"
      by (rule Cons.IH) (use Cons.prems False in auto)
    then show ?thesis using False by (simp add: scan_def)
  qed
qed

lemma makeIndentsMap_scan:
  "makeIndentsMap body ig =
     indentsMap (case scan ig (\<lparr> previousSize = 0, previousIndentType = None, indentKey = None,
                                 indentsMap = [] \<rparr>, []) body of
                   (st', cur') \<Rightarrow> indent_step ig st' cur')"
  using scan_lines [of "[]" ig _ body] by (simp add: makeIndentsMap_def)

lemma line_at_pre: "line_at n d cur \<Longrightarrow> line_pre n d cur"
  by (auto simp: line_at_def line_pre_def)

lemma line_at_extend: "line_at n d cur \<Longrightarrow> line_at n d (cur @ t)"
  unfolding line_at_def
  by (metis (no_types, lifting) append.assoc append_is_Nil_conv hd_append2)

lemma line_pre_extend:
  "line_pre n d cur \<Longrightarrow> t \<noteq> [] \<Longrightarrow> hd t \<noteq> CHR '' '' \<Longrightarrow> hd t \<noteq> TAB \<Longrightarrow> line_at n d (cur @ t)"
proof -
  assume a: "line_pre n d cur" "t \<noteq> []" "hd t \<noteq> CHR '' ''" "hd t \<noteq> TAB"
  then obtain content where c: "cur = sp (d * n) @ content"
    "content = [] \<or> (hd content \<noteq> CHR '' '' \<and> (if d = 0 then hd content \<noteq> TAB else True))"
    unfolding line_pre_def by blast
  have "cur @ t = sp (d * n) @ (content @ t)" using c by simp
  moreover have "content @ t \<noteq> []" using a by simp
  moreover have "hd (content @ t) \<noteq> CHR '' ''" using a c by (cases content) auto
  moreover have "if d = 0 then hd (content @ t) \<noteq> TAB else True"
    using a c by (cases content) (auto split: if_splits)
  ultimately show ?thesis unfolding line_at_def by blast
qed

lemma line_pre_spaces: "line_pre n d (sp (d * n))"
  by (simp add: line_pre_def)

lemma takeWhile_spaces: "c \<noteq> [] \<Longrightarrow> hd c \<noteq> CHR '' '' \<Longrightarrow>
  takeWhile (\<lambda>x. x = CHR '' '') (sp k @ c) = sp k"
  by (induction k) (auto simp: neq_Nil_conv)

lemma line_at_indent:
  assumes "0 < n" "line_at n d cur"
  shows "cur \<noteq> []" "line_indent cur = (if d = 0 then None else Some (Space, d * n))"
proof -
  from assms(2) obtain content where c: "cur = sp (d * n) @ content" "content \<noteq> []"
    "hd content \<noteq> CHR '' ''" "if d = 0 then hd content \<noteq> TAB else True"
    unfolding line_at_def by blast
  show "cur \<noteq> []" using c by simp
  show "line_indent cur = (if d = 0 then None else Some (Space, d * n))"
  proof (cases "d = 0")
    case True
    with c show ?thesis by (cases content) (auto simp: line_indent_def)
  next
    case False
    with assms(1) obtain k where k: "d * n = Suc k" by (cases "d * n") auto
    have "takeWhile (\<lambda>x. x = CHR '' '') cur = sp (d * n)"
      unfolding c(1) using c(2,3) by (rule takeWhile_spaces)
    then have "length (takeWhile (\<lambda>x. x = CHR '' '') cur) = d * n" by simp
    moreover have "cur = CHR '' '' # sp k @ content" using c(1) k by simp
    ultimately show ?thesis using False by (simp add: line_indent_def)
  qed
qed

lemma st_after_ok:
  "st_after n d st \<Longrightarrow> d' = d \<or> d' = Suc d \<or> Suc d' = d \<Longrightarrow> st_ok n d' st"
  by (auto simp: st_after_def st_ok_def)

lemma step_ok:
  assumes n: "2 \<le> n" and ok: "st_ok n d st" and at: "line_at n d cur"
  shows "st_after n d (indent_step ig st cur)"
    and "indentsMap st \<noteq> [] \<Longrightarrow> indentsMap (indent_step ig st cur) \<noteq> []"
proof -
  have ne: "cur \<noteq> []" and li: "line_indent cur = (if d = 0 then None else Some (Space, d * n))"
    using line_at_indent [OF _ at, of ] n by auto
  have mo: "map_ok n st" using ok by (simp add: st_ok_def)
  have both: "st_after n d (indent_step ig st cur) \<and>
              (indentsMap st \<noteq> [] \<longrightarrow> indentsMap (indent_step ig st cur) \<noteq> [])"
  proof (cases "d = 0")
    case True
    then have "indent_step ig st cur = st\<lparr> previousSize := 0, previousIndentType := None \<rparr>"
      using ne li by (simp add: indent_step_def)
    then show ?thesis using True mo by (simp add: st_after_def map_ok_def eff_prev_def)
  next
    case False
    then have "2 \<le> d * n" using n by (cases d) auto
    then have big: "d * n \<noteq> 1" "0 < d * n" by arith+
    define prev where "prev = eff_prev st"
    have prev: "(if Some Space \<noteq> previousIndentType st then 0 else previousSize st) = prev"
      by (simp add: prev_def eff_prev_def)
    define k where "k = (if d * n = prev then indentKey st
                         else Some (Space, if d * n > prev then d * n - prev else prev - d * n))"
    have rel: "prev = d * n \<or> prev = d * n + n \<or> prev + n = d * n"
      using ok False by (simp add: st_ok_def prev_def)
    have key: "0 < prev \<Longrightarrow> indentKey st = Some (Space, n)"
      using mo by (simp add: map_ok_def prev_def)
    have k: "k = Some (Space, n)"
      using rel key big n unfolding k_def by auto
    have gen: "indent_step ig st cur =
                 \<lparr> previousSize = m, previousIndentType = Some Space,
                   indentKey = (if m = prev then indentKey st
                                else Some (Space, if m > prev then m - prev else prev - m)),
                   indentsMap = update_entry
                     (if m = prev then indentKey st
                      else Some (Space, if m > prev then m - prev else prev - m))
                     (if m = prev then 1 else 0) (indentsMap st) \<rparr>"
      if "line_indent cur = Some (Space, m)" "2 \<le> m" for m
      using ne that prev by (simp add: indent_step_def Let_def)
    have step: "indent_step ig st cur =
                  \<lparr> previousSize = d * n, previousIndentType = Some Space, indentKey = k,
                    indentsMap = update_entry k (if d * n = prev then 1 else 0) (indentsMap st) \<rparr>"
      unfolding k_def using gen [of "d * n"] li False \<open>2 \<le> d * n\<close> by simp
    have "\<exists>u w. update_entry k x (indentsMap st) = [(Some (Space, n), Suc u, w)]" for x
      using mo k by (auto simp: map_ok_def)
    then obtain u w where "update_entry k (if d * n = prev then 1 else 0) (indentsMap st)
                            = [(Some (Space, n), Suc u, w)]" by blast
    then show ?thesis unfolding step using k False big
      by (simp add: st_after_def map_ok_def eff_prev_def)
  qed
  from both show "st_after n d (indent_step ig st cur)" by simp
  from both show "indentsMap st \<noteq> [] \<Longrightarrow> indentsMap (indent_step ig st cur) \<noteq> []" by simp
qed

lemma scan_newline:
  assumes n: "2 \<le> n" and ok: "st_ok n d st" and at: "line_at n d cur"
    and le: "le = [LF] \<or> le = [CR, LF]"
  shows "\<exists>st'. scan ig (st, cur) (le @ sp k) = (st', sp k) \<and> st_after n d st' \<and>
               (indentsMap st \<noteq> [] \<longrightarrow> indentsMap st' \<noteq> [])"
proof -
  define line where "line = (if le = [LF] then cur else cur @ [CR])"
  have at': "line_at n d line" using at line_at_extend by (simp add: line_def)
  have "scan ig (st, cur) le = (indent_step ig st line, [])"
    using le by (auto simp: scan_def line_def)
  moreover have "scan ig (indent_step ig st line, []) (sp k) = (indent_step ig st line, sp k)"
    using scan_content [of "sp k" ig "indent_step ig st line" "[]"] by simp
  ultimately have "scan ig (st, cur) (le @ sp k) = (indent_step ig st line, sp k)"
    by (simp add: scan_append)
  with step_ok [OF n ok at', of ig] show ?thesis by simp
qed

lemma scansD:
  assumes "scans strict n d ig le body" "st_ok n d st" "line_pre n d cur"
  obtains st' cur' where "scan ig (st, cur) (replace_newlines (Some le) body) = (st', cur')"
    "st_ok n d st'" "line_at n d cur'" "indentsMap st \<noteq> [] \<Longrightarrow> indentsMap st' \<noteq> []"
    "strict \<Longrightarrow> indentsMap st' \<noteq> []"
  using assms unfolding scans_def by blast

lemma scans_weaken: "scans b n d ig le body \<Longrightarrow> (b' \<Longrightarrow> b) \<Longrightarrow> scans b' n d ig le body"
  unfolding scans_def by blast

lemma scans_plain:
  assumes "LF \<notin> set t" "t \<noteq> []" "hd t \<noteq> CHR '' ''" "hd t \<noteq> TAB"
  shows "scans False n d ig le t"
  unfolding scans_def
  using assms line_pre_extend [of n d _ t]
  by (simp add: replace_newlines_id scan_content)

lemma scans_append:
  assumes a: "scans b1 n d ig le a" and b: "scans b2 n d ig le b"
  shows "scans (b1 \<or> b2) n d ig le (a @ b)"
  unfolding scans_def
proof (intro allI impI, elim conjE)
  fix st cur
  assume ok: "st_ok n d st" and pre: "line_pre n d cur"
  from scansD [OF a ok pre] obtain st1 cur1 where
    1: "scan ig (st, cur) (replace_newlines (Some le) a) = (st1, cur1)"
       "st_ok n d st1" "line_at n d cur1" "indentsMap st \<noteq> [] \<Longrightarrow> indentsMap st1 \<noteq> []"
       "b1 \<Longrightarrow> indentsMap st1 \<noteq> []" by metis
  from scansD [OF b 1(2) line_at_pre [OF 1(3)]] obtain st2 cur2 where
    2: "scan ig (st1, cur1) (replace_newlines (Some le) b) = (st2, cur2)"
       "st_ok n d st2" "line_at n d cur2" "indentsMap st1 \<noteq> [] \<Longrightarrow> indentsMap st2 \<noteq> []"
       "b2 \<Longrightarrow> indentsMap st2 \<noteq> []" by metis
  have "scan ig (st, cur) (replace_newlines (Some le) (a @ b)) = (st2, cur2)"
    by (simp add: replace_newlines_append scan_append 1(1) 2(1))
  with 1 2 show "\<exists>st' cur'. scan ig (st, cur) (replace_newlines (Some le) (a @ b)) = (st', cur') \<and>
           st_ok n d st' \<and> line_at n d cur' \<and>
           (indentsMap st \<noteq> [] \<longrightarrow> indentsMap st' \<noteq> []) \<and>
           (b1 \<or> b2 \<longrightarrow> indentsMap st' \<noteq> [])" by blast
qed

lemma replace_newlines_break:
  "replace_newlines (Some le) (LF # sp k @ t) = (le @ sp k) @ replace_newlines (Some le) t"
proof -
  have "LF \<notin> set (sp k)" by simp
  then have "replace_newlines (Some le) (sp k) = sp k" by (rule replace_newlines_id)
  then show ?thesis by (simp add: replace_newlines_LF replace_newlines_append)
qed

lemma scans_sep:
  assumes n: "2 \<le> n" and le: "le = [LF] \<or> le = [CR, LF]"
    and a: "scans b1 n d ig le a" and b: "scans b2 n d ig le b"
  shows "scans False n d ig le (a @ (CHR '','' # LF # sp (d * n)) @ b)"
  unfolding scans_def
proof (intro allI impI, elim conjE)
  fix st cur
  assume ok: "st_ok n d st" and pre: "line_pre n d cur"
  from scansD [OF a ok pre] obtain st1 cur1 where
    1: "scan ig (st, cur) (replace_newlines (Some le) a) = (st1, cur1)"
       "st_ok n d st1" "line_at n d cur1" "indentsMap st \<noteq> [] \<Longrightarrow> indentsMap st1 \<noteq> []"
    by metis
  have at: "line_at n d (cur1 @ '','')" using 1(3) by (rule line_at_extend)
  from scan_newline [OF n 1(2) at le, of ig "d * n"] obtain st2 where
    2: "scan ig (st1, cur1 @ '','') (le @ sp (d * n)) = (st2, sp (d * n))" "st_after n d st2"
       "indentsMap st1 \<noteq> [] \<Longrightarrow> indentsMap st2 \<noteq> []" by blast
  have ok2: "st_ok n d st2" using 2(2) by (rule st_after_ok) simp
  from scansD [OF b ok2 line_pre_spaces] obtain st3 cur3 where
    3: "scan ig (st2, sp (d * n)) (replace_newlines (Some le) b) = (st3, cur3)"
       "st_ok n d st3" "line_at n d cur3" "indentsMap st2 \<noteq> [] \<Longrightarrow> indentsMap st3 \<noteq> []"
    by metis
  have "replace_newlines (Some le) (a @ (CHR '','' # LF # sp (d * n)) @ b) =
          replace_newlines (Some le) a @ '','' @ (le @ sp (d * n)) @ replace_newlines (Some le) b"
    using replace_newlines_break [of le "d * n" b]
    by (simp add: replace_newlines_append replace_newlines_Cons)
  then have "scan ig (st, cur) (replace_newlines (Some le) (a @ (CHR '','' # LF # sp (d * n)) @ b))
               = (st3, cur3)"
    using 1(1) 2(1) 3(1) scan_content [of "'',''" ig st1 cur1]
    by (simp only: scan_append) simp
  with 1 2 3 show "\<exists>st' cur'.
      scan ig (st, cur) (replace_newlines (Some le) (a @ (CHR '','' # LF # sp (d * n)) @ b)) = (st', cur') \<and>
      st_ok n d st' \<and> line_at n d cur' \<and>
      (indentsMap st \<noteq> [] \<longrightarrow> indentsMap st' \<noteq> []) \<and> (False \<longrightarrow> indentsMap st' \<noteq> [])"
    by blast
qed

lemma scans_block:
  assumes n: "2 \<le> n" and le: "le = [LF] \<or> le = [CR, LF]"
    and inner: "scans b n (Suc d) ig le inner"
    and opener: "opener \<noteq> LF" "opener \<noteq> CHR '' ''" "opener \<noteq> TAB"
    and closer: "closer \<noteq> LF" "closer \<noteq> CHR '' ''" "closer \<noteq> TAB"
  shows "scans True n d ig le (opener # LF # sp (d * n) @ sp n @ inner @ LF # sp (d * n) @ [closer])"
  unfolding scans_def
proof (intro allI impI, elim conjE)
  fix st cur
  let ?body = "opener # LF # sp (d * n) @ sp n @ inner @ LF # sp (d * n) @ [closer]"
  assume ok: "st_ok n d st" and pre: "line_pre n d cur"
  have at0: "line_at n d (cur @ [opener])" using pre opener by (intro line_pre_extend) simp_all
  have deeper: "sp (d * n) @ sp n = sp (Suc d * n)" by (simp add: replicate_add [symmetric])
  from scan_newline [OF n ok at0 le, of ig "Suc d * n"] obtain st1 where
    1: "scan ig (st, cur @ [opener]) (le @ sp (Suc d * n)) = (st1, sp (Suc d * n))"
       "st_after n d st1" "indentsMap st \<noteq> [] \<Longrightarrow> indentsMap st1 \<noteq> []" by blast
  have ok1: "st_ok n (Suc d) st1" using 1(2) by (rule st_after_ok) simp
  from scansD [OF inner ok1 line_pre_spaces] obtain st2 cur2 where
    2: "scan ig (st1, sp (Suc d * n)) (replace_newlines (Some le) inner) = (st2, cur2)"
       "st_ok n (Suc d) st2" "line_at n (Suc d) cur2" by metis
  from scan_newline [OF n 2(2) 2(3) le, of ig "d * n"] obtain st3 where
    3: "scan ig (st2, cur2) (le @ sp (d * n)) = (st3, sp (d * n))" "st_after n (Suc d) st3"
    by blast
  have ok3: "st_ok n d st3" using 3(2) by (rule st_after_ok) simp
  have map3: "indentsMap st3 \<noteq> []" using 3(2) by (simp add: st_after_def)
  have at3: "line_at n d (sp (d * n) @ [closer])"
    using line_pre_spaces closer by (intro line_pre_extend) simp_all
  have "replace_newlines (Some le) ?body =
          [opener] @ (le @ sp (Suc d * n)) @ replace_newlines (Some le) inner
            @ (le @ sp (d * n)) @ [closer]"
  proof -
    have eq: "?body = opener # (LF # sp (Suc d * n) @ (inner @ LF # sp (d * n) @ [closer]))"
      using deeper by (metis append.assoc)
    have r1: "replace_newlines (Some le) (LF # sp (d * n) @ [closer])
                = (le @ sp (d * n)) @ [closer]"
      using replace_newlines_break [of le "d * n" "[closer]"] closer(1)
      by (simp add: replace_newlines_id)
    have r2: "replace_newlines (Some le) (LF # sp (Suc d * n) @ (inner @ LF # sp (d * n) @ [closer]))
                = (le @ sp (Suc d * n))
                  @ replace_newlines (Some le) (inner @ LF # sp (d * n) @ [closer])"
      by (rule replace_newlines_break)
    have r3: "replace_newlines (Some le) (inner @ LF # sp (d * n) @ [closer])
                = replace_newlines (Some le) inner
                  @ replace_newlines (Some le) (LF # sp (d * n) @ [closer])"
      by (rule replace_newlines_append)
    have r4: "replace_newlines (Some le) (opener # t) = opener # replace_newlines (Some le) t" for t
      using opener(1) by (rule replace_newlines_Cons)
    show ?thesis
      by (simp only: eq r4 r2 r3 r1 append_assoc append_Cons append_Nil)
  qed
  moreover have "scan ig (st, cur) [opener] = (st, cur @ [opener])"
    using scan_content [of "[opener]" ig st cur] opener(1) by simp
  moreover have "scan ig (st3, sp (d * n)) [closer] = (st3, sp (d * n) @ [closer])"
    using scan_content [of "[closer]" ig st3 "sp (d * n)"] closer(1) by simp
  ultimately have "scan ig (st, cur) (replace_newlines (Some le) ?body) = (st3, sp (d * n) @ [closer])"
    using 1(1) 2(1) 3(1) by (simp only: scan_append)
  with ok3 at3 map3 show "\<exists>st' cur'.
      scan ig (st, cur) (replace_newlines (Some le) ?body) = (st', cur') \<and>
      st_ok n d st' \<and> line_at n d cur' \<and>
      (indentsMap st \<noteq> [] \<longrightarrow> indentsMap st' \<noteq> []) \<and> (True \<longrightarrow> indentsMap st' \<noteq> [])"
    by blast
qed

lemma join_with_Cons: "ts \<noteq> [] \<Longrightarrow> join_with sep (t # ts) = t @ sep @ join_with sep ts"
  by (cases ts) simp_all

lemma serialize_elements_Nil: "serialize_elements gap ind xs = [] \<longleftrightarrow> xs = []"
  by (cases xs) simp_all

lemma serialize_members_Nil: "serialize_members gap ind props = [] \<longleftrightarrow> props = []"
  by (cases props) auto

lemma scans_scalar:
  "LF \<notin> set t \<Longrightarrow> t \<noteq> [] \<Longrightarrow> hd t \<noteq> CHR '' '' \<Longrightarrow> hd t \<noteq> TAB \<Longrightarrow>
   scans (LF \<in> set t) n d ig le t"
  using scans_plain [of t n d ig le] by simp

lemma member_prefix_plain:
  "LF \<notin> set (json_quote k @ '': '')" "json_quote k @ '': '' \<noteq> []"
  "hd (json_quote k @ '': '') \<noteq> CHR '' ''" "hd (json_quote k @ '': '') \<noteq> TAB"
  using json_quote_plain [of k] json_quote_hd_last [of k] by (simp_all add: hd_append)

lemma scans_serialize:
  assumes n: "2 \<le> n" and le: "le = [LF] \<or> le = [CR, LF]"
  shows "gap = sp n \<Longrightarrow> ind = sp (d * n) \<Longrightarrow>
           scans (LF \<in> set (serialize gap ind v)) n d ig le (serialize gap ind v)"
    and "gap = sp n \<Longrightarrow> ind = sp (d * n) \<Longrightarrow> xs \<noteq> [] \<Longrightarrow>
           scans False n d ig le (join_with (CHR '','' # LF # ind) (serialize_elements gap ind xs))"
    and "gap = sp n \<Longrightarrow> ind = sp (d * n) \<Longrightarrow> props \<noteq> [] \<Longrightarrow>
           scans False n d ig le (join_with (CHR '','' # LF # ind) (serialize_members gap ind props))"
proof (induction gap ind v and gap ind xs and gap ind props arbitrary: d and d and d
    rule: serialize_serialize_elements_serialize_members.induct)
  case (1 gap ind)
  show ?case using scans_scalar [of "''null''" n d ig le] by simp
next
  case (2 gap ind b)
  show ?case
    using scans_scalar [of "''true''" n d ig le] scans_scalar [of "''false''" n d ig le] by simp
next
  case (3 gap ind i)
  show ?case
    using scans_scalar [of "show_int i" n d ig le] show_int_plain [of i] show_int_chars(2) [of i]
    by simp
next
  case (4 gap ind s)
  show ?case
    using scans_scalar [of "json_quote s" n d ig le] json_quote_plain [of s] json_quote_hd_last [of s]
    by simp
next
  case (5 gap ind xs)
  show ?case
  proof (cases "xs = []")
    case True
    then show ?thesis using scans_scalar [of "''[]''" n d ig le] by simp
  next
    case False
    have gapne: "gap \<noteq> []" using 5(3) n by auto
    have deeper: "ind @ gap = sp (Suc d * n)"
      using 5(3,4) by (simp add: replicate_add [symmetric])
    have inner: "scans False n (Suc d) ig le
                   (join_with (CHR '','' # LF # ind @ gap) (serialize_elements gap (ind @ gap) xs))"
      using "5.IH"(2) [OF False gapne 5(3) deeper False] .
    have "scans True n d ig le (serialize gap ind (JArray xs))"
      using scans_block [OF n le inner, of "CHR ''[''" "CHR '']''"] False gapne 5(3,4) by simp
    then show ?thesis by (rule scans_weaken) simp
  qed
next
  case (6 gap ind props)
  show ?case
  proof (cases "props = []")
    case True
    then show ?thesis using scans_scalar [of "''{}''" n d ig le] by simp
  next
    case False
    have gapne: "gap \<noteq> []" using 6(3) n by auto
    have deeper: "ind @ gap = sp (Suc d * n)"
      using 6(3,4) by (simp add: replicate_add [symmetric])
    have inner: "scans False n (Suc d) ig le
                   (join_with (CHR '','' # LF # ind @ gap) (serialize_members gap (ind @ gap) props))"
      using "6.IH"(2) [OF False gapne 6(3) deeper False] .
    have "scans True n d ig le (serialize gap ind (JObject props))"
      using scans_block [OF n le inner, of "CHR ''{''" "CHR ''}''"] False gapne 6(3,4) by simp
    then show ?thesis by (rule scans_weaken) simp
  qed
next
  case (7 gap ind)
  then show ?case by simp
next
  case (8 gap ind x xs)
  have x: "scans False n d ig le (serialize gap ind x)"
    using "8.IH"(1) [OF 8(3,4)] by (rule scans_weaken) simp
  show ?case
  proof (cases "xs = []")
    case True
    then show ?thesis using x by simp
  next
    case False
    have rest: "scans False n d ig le
                  (join_with (CHR '','' # LF # ind) (serialize_elements gap ind xs))"
      using "8.IH"(2) [OF 8(3,4) False] .
    have "serialize_elements gap ind xs \<noteq> []" using False by (simp add: serialize_elements_Nil)
    then have "join_with (CHR '','' # LF # ind) (serialize_elements gap ind (x # xs)) =
                 serialize gap ind x @ (CHR '','' # LF # sp (d * n))
                 @ join_with (CHR '','' # LF # ind) (serialize_elements gap ind xs)"
      using 8(4) by (simp add: join_with_Cons)
    then show ?thesis using scans_sep [OF n le x rest] by simp
  qed
next
  case (9 gap ind)
  then show ?case by simp
next
  case (10 gap ind k v props)
  have gapne: "gap \<noteq> []" using 10(3) n by auto
  have v: "scans (LF \<in> set (serialize gap ind v)) n d ig le (serialize gap ind v)"
    using "10.IH"(1) [OF 10(3,4)] .
  have "scans (False \<or> LF \<in> set (serialize gap ind v)) n d ig le
          ((json_quote k @ '': '') @ serialize gap ind v)"
    using scans_plain [OF member_prefix_plain [of k], where n = n and d = d and ig = ig and le = le] v
    by (rule scans_append)
  then have m: "scans False n d ig le ((json_quote k @ '': '') @ serialize gap ind v)"
    by (rule scans_weaken) simp
  have member: "serialize_members gap ind ((k, v) # props) =
                  ((json_quote k @ '': '') @ serialize gap ind v) # serialize_members gap ind props"
    using gapne by simp
  show ?case
  proof (cases "props = []")
    case True
    then show ?thesis using m gapne by simp
  next
    case False
    have rest: "scans False n d ig le
                  (join_with (CHR '','' # LF # ind) (serialize_members gap ind props))"
      using "10.IH"(2) [OF 10(3,4) False] .
    have "serialize_members gap ind props \<noteq> []" using False by (simp add: serialize_members_Nil)
    from join_with_Cons [OF this] have "join_with (CHR '','' # LF # ind) (serialize_members gap ind ((k, v) # props)) =
                 ((json_quote k @ '': '') @ serialize gap ind v) @ (CHR '','' # LF # sp (d * n))
                 @ join_with (CHR '','' # LF # ind) (serialize_members gap ind props)"
      unfolding member using 10(4) by simp
    then show ?thesis using scans_sep [OF n le m rest] by (simp only:)
  qed
qed

lemma indent_step_flat: "flat cur \<Longrightarrow> indentsMap (indent_step ig st cur) = indentsMap st"
  by (auto simp: flat_def indent_step_def)

lemma flat_CR: "flat cur \<Longrightarrow> flat (cur @ [CR])"
  by (cases cur) (auto simp: flat_def line_indent_def split: if_splits)

lemma line_at_flat: "0 < n \<Longrightarrow> line_at n 0 cur \<Longrightarrow> flat cur"
  using line_at_indent(2) [of n 0 cur] by (simp add: flat_def)

lemma scan_trailing:
  assumes le: "le = [LF] \<or> le = [CR, LF]"
  shows "flat cur \<Longrightarrow>
         \<exists>st' cur'. scan ig (st, cur) (concat (replicate k le)) = (st', cur') \<and>
                    indentsMap st' = indentsMap st \<and> flat cur'"
proof (induction k arbitrary: st cur)
  case 0
  then show ?case by (simp add: scan_Nil)
next
  case (Suc k)
  define line where "line = (if le = [LF] then cur else cur @ [CR])"
  have fl: "flat line" using Suc.prems flat_CR by (simp add: line_def)
  have first: "scan ig (st, cur) le = (indent_step ig st line, [])"
    using le by (auto simp: scan_def line_def)
  have "flat []" by (simp add: flat_def)
  from Suc.IH [OF this, of "indent_step ig st line"] obtain st' cur' where
    "scan ig (indent_step ig st line, []) (concat (replicate k le)) = (st', cur')"
    "indentsMap st' = indentsMap (indent_step ig st line)" "flat cur'" by blast
  then show ?case using first indent_step_flat [OF fl, of ig st]
    by (simp add: scan_append)
qed

lemma makeIndentsMap_written:
  fixes v :: json
  assumes n: "2 \<le> n" and le: "le = [LF] \<or> le = [CR, LF]"
  defines "body \<equiv> serialize (sp n) [] v"
  shows "map_only n (makeIndentsMap (replace_newlines (Some le) body @ concat (replicate k le)) ig)"
    and "LF \<in> set body \<Longrightarrow>
         makeIndentsMap (replace_newlines (Some le) body @ concat (replicate k le)) ig \<noteq> []"
proof -
  define init where "init = \<lparr> previousSize = 0, previousIndentType = None, indentKey = None,
                               indentsMap = [] \<rparr>"
  have ok: "st_ok n 0 init" by (simp add: init_def st_ok_def map_ok_def eff_prev_def)
  have pre: "line_pre n 0 []" by (simp add: line_pre_def)
  have "scans (LF \<in> set body) n 0 ig le body"
    unfolding body_def using scans_serialize(1) [OF n le, of "sp n" "[]" 0 v ig] by simp
  from scansD [OF this ok pre] obtain st1 cur1 where
    1: "scan ig (init, []) (replace_newlines (Some le) body) = (st1, cur1)"
       "st_ok n 0 st1" "line_at n 0 cur1" "LF \<in> set body \<Longrightarrow> indentsMap st1 \<noteq> []" by metis
  have "flat cur1" using line_at_flat [OF _ 1(3)] n by simp
  from scan_trailing [OF le this, of ig st1 k] obtain st2 cur2 where
    2: "scan ig (st1, cur1) (concat (replicate k le)) = (st2, cur2)"
       "indentsMap st2 = indentsMap st1" "flat cur2" by blast
  have "makeIndentsMap (replace_newlines (Some le) body @ concat (replicate k le)) ig
          = indentsMap (indent_step ig st2 cur2)"
    unfolding makeIndentsMap_scan init_def [symmetric] using 1(1) 2(1) by (simp add: scan_append)
  then have eq: "makeIndentsMap (replace_newlines (Some le) body @ concat (replicate k le)) ig
                   = indentsMap st1"
    using indent_step_flat [OF 2(3), of ig st2] 2(2) by simp
  show "map_only n (makeIndentsMap (replace_newlines (Some le) body @ concat (replicate k le)) ig)"
    unfolding eq using 1(2) by (simp add: st_ok_def map_ok_def map_only_def)
  show "LF \<in> set body \<Longrightarrow>
        makeIndentsMap (replace_newlines (Some le) body @ concat (replicate k le)) ig \<noteq> []"
    unfolding eq using 1(4) .
qed

lemma detectIndent_written:
  assumes n: "2 \<le> n" and le: "le = [LF] \<or> le = [CR, LF]"
    and lines: "LF \<in> set (serialize (sp n) [] v)"
  shows "detectIndent_amount (replace_newlines (Some le) (serialize (sp n) [] v)
                                @ concat (replicate k le)) = n"
proof -
  let ?c = "replace_newlines (Some le) (serialize (sp n) [] v) @ concat (replicate k le)"
  from makeIndentsMap_written [OF n le, of v k True] lines
  obtain u w where m: "makeIndentsMap ?c True = [(Some (Space, n), Suc u, w)]"
    by (auto simp: map_only_def)
  show ?thesis by (simp add: detectIndent_amount_def m getMostUsedKey_def)
qed

subsection \<open>Newline detection and trailing whitespace on the text that \<open>write\<close> produces\<close>

lemma count_newlines_Cons:
  "count_newlines b (c # cs) =
     (if c = LF then (if b then (Suc (fst (count_newlines (c = CR) cs)), snd (count_newlines (c = CR) cs))
                      else (fst (count_newlines (c = CR) cs), Suc (snd (count_newlines (c = CR) cs))))
      else count_newlines (c = CR) cs)"
  by (simp split: prod.splits)

lemma count_newlines_none:
  "(fst (count_newlines b s) + snd (count_newlines b s) = 0) = (LF \<notin> set s)"
proof (induction s arbitrary: b)
  case Nil
  show ?case by simp
next
  case (Cons c s)
  show ?case using Cons [of "c = CR"] by (simp add: count_newlines_Cons del: count_newlines.simps)
qed

lemma count_newlines_no_CR: "CR \<notin> set s \<Longrightarrow> fst (count_newlines False s) = 0"
proof (induction s)
  case Nil
  show ?case by simp
next
  case (Cons c s)
  then show ?case by (auto split: prod.splits)
qed

lemma count_newlines_CRLF:
  "count_newlines b (CR # LF # t) =
     (Suc (fst (count_newlines False t)), snd (count_newlines False t))"
  by (simp split: prod.splits)

lemma count_newlines_other:
  "c \<noteq> LF \<Longrightarrow> c \<noteq> CR \<Longrightarrow> count_newlines b (c # t) = count_newlines False t"
  by (simp split: prod.splits)

lemma count_newlines_replaced:
  "CR \<notin> set s \<Longrightarrow>
   snd (count_newlines False (replace_newlines (Some [CR, LF]) s @ t)) = snd (count_newlines False t)"
proof (induction s)
  case Nil
  show ?case by (simp add: replace_newlines_def)
next
  case (Cons c s)
  show ?case
  proof (cases "c = LF")
    case True
    then have "replace_newlines (Some [CR, LF]) (c # s) @ t
                 = CR # LF # (replace_newlines (Some [CR, LF]) s @ t)"
      by (simp add: replace_newlines_LF)
    then show ?thesis using Cons by (simp only: count_newlines_CRLF) simp
  next
    case False
    then have "replace_newlines (Some [CR, LF]) (c # s) @ t
                 = c # (replace_newlines (Some [CR, LF]) s @ t)"
      by (simp add: replace_newlines_Cons)
    moreover have "c \<noteq> CR" using Cons.prems by auto
    ultimately show ?thesis
      using Cons count_newlines_other [OF False, of False "replace_newlines (Some [CR, LF]) s @ t"]
      by (simp del: count_newlines.simps)
  qed
qed

lemma count_newlines_trailing:
  "snd (count_newlines False (concat (replicate k [CR, LF]))) = 0"
proof (induction k)
  case 0
  show ?case by simp
next
  case (Suc k)
  have "concat (replicate (Suc k) [CR, LF]) = CR # LF # concat (replicate k [CR, LF])" by simp
  then show ?case using Suc by (simp only: count_newlines_CRLF) simp
qed

lemma replace_newlines_LF_id: "replace_newlines (Some [LF]) s = s"
  by (induction s) (auto simp: replace_newlines_def)

lemma set_replace_newlines:
  "LF \<in> set le \<Longrightarrow> LF \<in> set (replace_newlines (Some le) s) \<longleftrightarrow> LF \<in> set s"
  by (induction s) (auto simp: replace_newlines_def)

lemma detectNewline_written:
  assumes le: "le = [LF] \<or> le = [CR, LF]" and cr: "CR \<notin> set s"
  shows "detectNewline (replace_newlines (Some le) s @ concat (replicate k le)) =
           (if LF \<in> set s \<or> 0 < k then Some le else None)"
proof -
  let ?c = "replace_newlines (Some le) s @ concat (replicate k le)"
  have lf: "LF \<in> set ?c \<longleftrightarrow> LF \<in> set s \<or> 0 < k"
    using le set_replace_newlines [of le s] by (cases k) auto
  from le show ?thesis
  proof
    assume l: "le = [LF]"
    have "CR \<notin> set ?c" using cr l by (auto simp: replace_newlines_LF_id)
    then have "fst (count_newlines False ?c) = 0" by (rule count_newlines_no_CR)
    then show ?thesis
      using count_newlines_none [of False ?c] lf l
      by (auto simp: detectNewline_def split: prod.splits)
  next
    assume l: "le = [CR, LF]"
    have "snd (count_newlines False ?c) = 0"
      unfolding l using count_newlines_replaced [OF cr] count_newlines_trailing by simp
    then show ?thesis
      using count_newlines_none [of False ?c] lf l
      by (auto simp: detectNewline_def split: prod.splits)
  qed
qed

lemma trailing_whitespace_append:
  assumes "xs \<noteq> []" "\<not> P (last xs)" "list_all P t"
  shows "rev (takeWhile P (rev (xs @ t))) = t"
proof -
  have "takeWhile P (rev xs) = []" using assms(1,2) by (cases xs rule: rev_cases) auto
  moreover have "takeWhile P (rev t @ rev xs) = rev t @ takeWhile P (rev xs)"
    using assms(3) by (intro takeWhile_append2) (simp add: list_all_iff)
  ultimately show ?thesis by simp
qed

lemma last_replace_newlines:
  assumes "s \<noteq> []" "last s \<noteq> LF"
  shows "replace_newlines le s \<noteq> []" "last (replace_newlines le s) = last s"
proof -
  from assms(1) obtain front where s: "s = front @ [last s]"
    by (metis append_butlast_last_id)
  have "replace_newlines le s = replace_newlines le front @ [last s]"
    using assms(2) replace_newlines_append [of le front "[last s]"] s
    by (simp add: replace_newlines_def)
  then show "replace_newlines le s \<noteq> []" "last (replace_newlines le s) = last s" by simp_all
qed

lemma trailingWhitespace_written:
  assumes le: "le = [LF] \<or> le = [CR, LF]"
  shows "rev (takeWhile is_space (rev (replace_newlines (Some le) (serialize gap ind v)
                                        @ concat (replicate k le)))) = concat (replicate k le)"
proof -
  let ?s = "serialize gap ind v"
  have ne: "?s \<noteq> []" using serialize_hd [of gap ind v] by simp
  have sp: "\<not> is_space (last ?s)" by (rule serialize_last)
  then have "last ?s \<noteq> LF" by (auto simp: is_space_def)
  from last_replace_newlines [OF ne this, of "Some le"] sp
  have 1: "replace_newlines (Some le) ?s \<noteq> []" "\<not> is_space (last (replace_newlines (Some le) ?s))"
    by simp_all
  have "list_all is_space (concat (replicate k le))"
    using le by (induction k) (auto simp: is_space_def)
  with 1 show ?thesis by (rule trailing_whitespace_append)
qed

lemma serialize_flat:
  "gap \<noteq> [] \<Longrightarrow> LF \<notin> set (serialize gap ind v) \<Longrightarrow> serialize gap' ind' v = serialize gap ind v"
  by (cases v) (auto split: if_splits)

subsection \<open>The round trip\<close>

text \<open>
  Claim C3, as the code has it.  Let a manifest be the text that \<open>JSON.stringify\<close> gives
  for the value it parses to, with an indentation of \<open>n\<close> spaces for some \<open>n\<close> from 2 to
  10, written with the line ending \<open>\n\<close> or \<open>\r\n\<close>, and followed by any number of such
  line endings.  Then the constructor of \<open>JSONFile\<close> succeeds, holds the parsed value,
  and \<open>write\<close> on the unchanged object writes the text of the file again: the file
  system is as before.
\<close>

theorem manifest_round_trip:
  assumes stored: "files w fname = Some contents"
    and parse: "JSON_parse contents = Inr v"
    and layout: "contents = replace_newlines (Some le) (JSON_stringify v n) @ concat (replicate k le)"
    and n: "2 \<le> n" "n \<le> 10"
    and le: "le = [LF] \<or> le = [CR, LF]"
  shows "\<exists>f. JSONFile_new fname w = Inr f \<and> pkg f = v \<and> write_contents f = contents \<and>
             JSONFile_write f w = w"
proof -
  define body where "body = serialize (sp n) [] v"
  define f where "f = \<lparr> filename = fname, pkg = v, lineEndings = detectNewline contents,
                         indent = detectIndent_amount contents,
                         trailingWhitespace = rev (takeWhile is_space (rev contents)) \<rparr>"
  have str: "JSON_stringify v n = body" using n by (simp add: JSON_stringify_def body_def min_def)
  have c: "contents = replace_newlines (Some le) body @ concat (replicate k le)"
    using layout str by simp
  have new: "JSONFile_new fname w = Inr f" using stored parse by (simp add: JSONFile_new_def f_def)
  have tw: "rev (takeWhile is_space (rev contents)) = concat (replicate k le)"
    unfolding c body_def by (rule trailingWhitespace_written [OF le])
  have cr: "CR \<notin> set body" unfolding body_def by (rule serialize_no_CR(1)) simp_all
  have nl: "detectNewline contents = (if LF \<in> set body \<or> 0 < k then Some le else None)"
    unfolding c by (rule detectNewline_written [OF le cr])
  have "replace_newlines (detectNewline contents) (JSON_stringify v (detectIndent_amount contents))
          = replace_newlines (Some le) body"
  proof (cases "LF \<in> set body")
    case True
    have "detectIndent_amount contents = n"
      unfolding c body_def using True detectIndent_written [OF n(1) le, of v k]
      by (simp add: body_def)
    then show ?thesis using nl True str by simp
  next
    case False
    have "sp n \<noteq> []" using n by auto
    from serialize_flat [OF this False [unfolded body_def]]
    have "JSON_stringify v m = body" for m by (simp add: JSON_stringify_def body_def)
    then show ?thesis using False by (simp add: replace_newlines_id)
  qed
  then have wr: "write_contents f = contents"
    using tw c by (simp add: write_contents_def f_def)
  have "JSONFile_write f w = w"
    using stored wr by (simp add: JSONFile_write_def f_def fun_upd_idem)
  with new wr show ?thesis by (auto simp: f_def)
qed

text \<open>
  The hypotheses hold for a manifest indented with four spaces, with \<open>\r\n\<close> line endings,
  an array inside the object and a blank line at the end.
\<close>

theorem manifest_round_trip_witness:
  "files (manifest_world wide_manifest) ''/repo/package.json'' = Some wide_manifest \<and>
   JSON_parse wide_manifest =
     Inr (JObject [(''name'', JString ''a''), (''files'', JArray [JString ''lib''])]) \<and>
   wide_manifest =
     replace_newlines (Some [CR, LF])
       (JSON_stringify (JObject [(''name'', JString ''a''), (''files'', JArray [JString ''lib''])]) 4)
     @ concat (replicate 2 [CR, LF]) \<and>
   (\<exists>f. JSONFile_new ''/repo/package.json'' (manifest_world wide_manifest) = Inr f \<and>
        pkg f = JObject [(''name'', JString ''a''), (''files'', JArray [JString ''lib''])] \<and>
        write_contents f = wide_manifest \<and>
        JSONFile_write f (manifest_world wide_manifest) = manifest_world wide_manifest)"
proof -
  have stored: "files (manifest_world wide_manifest) ''/repo/package.json'' = Some wide_manifest"
    by (simp add: manifest_world_def)
  have n: "(2::nat) \<le> 4" "(4::nat) \<le> 10" by simp_all
  have le: "[CR, LF] = [LF] \<or> [CR, LF] = [CR, LF]" by simp
  from manifest_round_trip [OF stored parse_wide_manifest stringify_wide_manifest [symmetric] n le]
    stored parse_wide_manifest stringify_wide_manifest
  show ?thesis by simp
qed

text \<open>
  Two manifests that are not written back as they were.  For a manifest indented with
  a tab, the constructor keeps only the amount of the detected indentation, which is
  1, and \<open>write\<close> indents with one space.  For a manifest with an array on one line,
  \<open>write\<close> puts every element on a line of its own.
\<close>

theorem manifest_round_trip_fails:
  "(\<exists>f. JSONFile_new ''/repo/package.json'' (manifest_world tab_manifest) = Inr f \<and>
        pkg f = JObject [(''name'', JString ''a'')] \<and> indent f = 1 \<and>
        write_contents f =
          ''{'' @ [LF] @ '' '' @ [DQ] @ ''name'' @ [DQ] @ '': '' @ [DQ] @ ''a'' @ [DQ, LF] @ ''}'' @ [LF] \<and>
        write_contents f \<noteq> tab_manifest \<and>
        files (JSONFile_write f (manifest_world tab_manifest)) ''/repo/package.json''
          \<noteq> Some tab_manifest) \<and>
   (\<exists>f. JSONFile_new ''/repo/package.json'' (manifest_world inline_manifest) = Inr f \<and>
        pkg f = JObject [(''name'', JString ''a''), (''files'', JArray [JString ''lib''])] \<and>
        indent f = 2 \<and>
        write_contents f =
          ''{'' @ [LF] @
          ''  '' @ [DQ] @ ''name'' @ [DQ] @ '': '' @ [DQ] @ ''a'' @ [DQ] @ '','' @ [LF] @
          ''  '' @ [DQ] @ ''files'' @ [DQ] @ '': ['' @ [LF] @
          ''    '' @ [DQ] @ ''lib'' @ [DQ, LF] @
          ''  ]'' @ [LF] @
          ''}'' @ [LF] \<and>
        write_contents f \<noteq> inline_manifest \<and>
        files (JSONFile_write f (manifest_world inline_manifest)) ''/repo/package.json''
          \<noteq> Some inline_manifest)"
proof -
  have tab: "JSONFile_new ''/repo/package.json'' (manifest_world tab_manifest) =
               Inr \<lparr> filename = ''/repo/package.json'', pkg = JObject [(''name'', JString ''a'')],
                     lineEndings = Some [LF], indent = 1, trailingWhitespace = [LF] \<rparr>"
    by (simp add: JSONFile_new_def manifest_world_def parse_tab_manifest detect_tab_manifest)
  have inl: "JSONFile_new ''/repo/package.json'' (manifest_world inline_manifest) =
               Inr \<lparr> filename = ''/repo/package.json'',
                     pkg = JObject [(''name'', JString ''a''), (''files'', JArray [JString ''lib''])],
                     lineEndings = Some [LF], indent = 2, trailingWhitespace = [LF] \<rparr>"
    by (simp add: JSONFile_new_def manifest_world_def parse_inline_manifest detect_inline_manifest)
  show ?thesis
    unfolding tab inl
    by (simp add: write_contents_def JSONFile_write_def JSON_stringify_def replace_newlines_def
        json_quote_def quote_char_def tab_manifest_def inline_manifest_def eval_nat_numeral)
qed


end
